theory Spec2Isabelle
  imports Main
begin

section \<open>Python values shared by the models\<close>

text \<open>
  Strings are ASCII text, one \<open>char\<close> per character. The exceptions the modelled
  code can raise are values of \<open>error\<close>; a function that can raise returns
  \<open>error + 'a\<close>, with \<open>Inl\<close> the exception.
\<close>

datatype error = AssertionError | IndexError | KeyError | ValueError

definition ascii_uppercase :: string where
  "ascii_uppercase = ''ABCDEFGHIJKLMNOPQRSTUVWXYZ''"

definition ascii_lowercase :: string where
  "ascii_lowercase = ''abcdefghijklmnopqrstuvwxyz''"

text \<open>\<^verbatim>\<open>str.lower()\<close> and \<^verbatim>\<open>str.upper()\<close> on ASCII text.\<close>

definition lower_char :: "char \<Rightarrow> char" where
  "lower_char c =
     (case map_of (zip ascii_uppercase ascii_lowercase) c of Some d \<Rightarrow> d | None \<Rightarrow> c)"

definition upper_char :: "char \<Rightarrow> char" where
  "upper_char c =
     (case map_of (zip ascii_lowercase ascii_uppercase) c of Some d \<Rightarrow> d | None \<Rightarrow> c)"

definition lower :: "string \<Rightarrow> string" where
  "lower s = map lower_char s"

definition upper :: "string \<Rightarrow> string" where
  "upper s = map upper_char s"


text \<open>
  The characters for which \<^verbatim>\<open>str.isspace()\<close> holds, among ASCII: tab, line feed,
  vertical tab, form feed, carriage return, the four separators 0x1C--0x1F and space.
  \<^verbatim>\<open>str.strip()\<close> and \<^verbatim>\<open>str.split()\<close> without arguments use this set.
\<close>

definition whitespace :: string where
  "whitespace = [CHR 0x09, CHR 0x0A, CHR 0x0B, CHR 0x0C, CHR 0x0D,
                 CHR 0x1C, CHR 0x1D, CHR 0x1E, CHR 0x1F, CHR '' '']"

definition isspace :: "char \<Rightarrow> bool" where
  "isspace c = (c \<in> set whitespace)"

text \<open>\<^verbatim>\<open>s.strip()\<close>, \<^verbatim>\<open>s.startswith(p)\<close>.\<close>

definition strip :: "string \<Rightarrow> string" where
  "strip s = rev (dropWhile isspace (rev (dropWhile isspace s)))"

definition startswith :: "string \<Rightarrow> string \<Rightarrow> bool" where
  "startswith s p = (take (length p) s = p)"

text \<open>
  \<^verbatim>\<open>s.split(sep)\<close> for a one-character separator: empty fields are kept, and the
  empty string splits into one empty field.
\<close>

fun split_on :: "char \<Rightarrow> string \<Rightarrow> string list" where
  "split_on sep [] = [[]]"
| "split_on sep (c # cs) =
     (if c = sep then [] # split_on sep cs
      else (case split_on sep cs of
              w # ws \<Rightarrow> (c # w) # ws
            | [] \<Rightarrow> [[c]]))"

text \<open>\<^verbatim>\<open>s.split()\<close>: fields are maximal runs of non-whitespace; no empty field.\<close>

function split_ws :: "string \<Rightarrow> string list" where
  "split_ws [] = []"
| "split_ws (c # cs) =
     (if isspace c then split_ws cs
      else (c # takeWhile (\<lambda>x. \<not> isspace x) cs) # split_ws (dropWhile (\<lambda>x. \<not> isspace x) cs))"
  by pat_completeness auto
termination
  by (relation "measure length") (auto simp: length_dropWhile_le less_Suc_eq_le)

text \<open>\<^verbatim>\<open>sep.join(xs)\<close>.\<close>

fun join :: "string \<Rightarrow> string list \<Rightarrow> string" where
  "join sep [] = []"
| "join sep [x] = x"
| "join sep (x # y # ys) = x @ sep @ join sep (y # ys)"

text \<open>
  \<^verbatim>\<open>int(s)\<close> on ASCII text: surrounding whitespace is ignored, one sign is allowed,
  then decimal digits, where single underscores may stand between digits. Anything else
  raises ValueError.
\<close>

definition digit_value :: "char \<Rightarrow> nat option" where
  "digit_value c = map_of (zip ''0123456789'' [0, 1, 2, 3, 4, 5, 6, 7, 8, 9]) c"

fun digits_value :: "nat \<Rightarrow> string \<Rightarrow> nat option" where
  "digits_value acc [] = Some acc"
| "digits_value acc (c # cs) =
     (if c = CHR ''_'' then
        (case cs of
           [] \<Rightarrow> None
         | d # _ \<Rightarrow> if d = CHR ''_'' then None else digits_value acc cs)
      else (case digit_value c of
              None \<Rightarrow> None
            | Some v \<Rightarrow> digits_value (10 * acc + v) cs))"

definition unsigned_value :: "string \<Rightarrow> nat option" where
  "unsigned_value s =
     (case s of
        [] \<Rightarrow> None
      | c # _ \<Rightarrow> if c = CHR ''_'' then None else digits_value 0 s)"

definition py_int :: "string \<Rightarrow> error + int" where
  "py_int s =
     (let t = strip s;
          r = (case t of
                 [] \<Rightarrow> None
               | c # cs \<Rightarrow>
                   if c = CHR ''-'' then map_option (\<lambda>n. - int n) (unsigned_value cs)
                   else if c = CHR ''+'' then map_option int (unsigned_value cs)
                   else map_option int (unsigned_value t))
      in case r of None \<Rightarrow> Inl ValueError | Some i \<Rightarrow> Inr i)"


definition tab :: char where
  "tab = CHR 0x09"

definition newline :: string where
  "newline = [CHR 0x0A]"


section \<open>Padding and packing (\<^verbatim>\<open>pack_to_length\<close>, used by \<^verbatim>\<open>BertEmbedder.forward\<close>)\<close>

text \<open>
  Modelled from the spec: \<^verbatim>\<open>parsect.utils.common.pack_to_length\<close> is imported by
  \<^verbatim>\<open>bert_embedder.py\<close> but its source file is not among the sources. The
  specification (section 4.6) says: start and end markers, when asked for, are inserted
  first and count toward \<open>max_length\<close>; a sequence longer than \<open>max_length\<close> is truncated
  from the end; a shorter one is right-padded with \<open>pad_token\<close> until \<open>max_length\<close>.
  \<open>max_length\<close> is a length, hence a natural number.
\<close>

definition with_start_end :: "bool \<Rightarrow> 'a \<Rightarrow> 'a \<Rightarrow> 'a list \<Rightarrow> 'a list" where
  "with_start_end add_start_end_token start_token end_token tokenized_text =
     (if add_start_end_token then start_token # tokenized_text @ [end_token]
      else tokenized_text)"

fun pad_until :: "nat \<Rightarrow> 'a \<Rightarrow> 'a list \<Rightarrow> 'a list" where
  "pad_until 0 pad_token toks = toks"
| "pad_until (Suc n) pad_token toks = pad_until n pad_token (toks @ [pad_token])"

definition pack_to_length :: "'a list \<Rightarrow> nat \<Rightarrow> 'a \<Rightarrow> bool \<Rightarrow> 'a \<Rightarrow> 'a \<Rightarrow> 'a list" where
  "pack_to_length tokenized_text max_length pad_token add_start_end_token start_token end_token =
     (let toks = with_start_end add_start_end_token start_token end_token tokenized_text
      in if length toks > max_length then take max_length toks
         else pad_until (max_length - length toks) pad_token toks)"

text \<open>
  The padding loop of \<^verbatim>\<open>BertEmbedder.forward\<close> (lines 93--108), after the tokenizer
  has run: \<open>tokenized_text\<close> is the batch of token lists.
  \<^verbatim>\<open>sorted(lengths, reverse=True)[0]\<close> is the largest length and raises IndexError on
  an empty batch.
\<close>

definition forward_padded_tokenized_text :: "string list list \<Rightarrow> error + string list list" where
  "forward_padded_tokenized_text tokenized_text =
     (let lengths = map length tokenized_text
      in case rev (sort lengths) of
           [] \<Rightarrow> Inl IndexError
         | max_len # _ \<Rightarrow>
             Inr (map (\<lambda>tokens. pack_to_length tokens max_len ''[PAD]'' True ''[CLS]'' ''[SEP]'')
                    tokenized_text))"


section \<open>\<^verbatim>\<open>BaseTextClassification.__init__\<close>\<close>

text \<open>
  The constructor's arguments and the attributes it assigns. The tokenizer objects are
  opaque (\<open>'w\<close>, \<open>'c\<close>), and so are the floating-point fractions (\<open>'f\<close>), which the
  constructor only stores. What \<^verbatim>\<open>msg_printer.divider\<close> prints is returned as the
  list of lines written to the console.
\<close>

record ('w, 'c, 'f) init_args =
  arg_filename :: string
  arg_dataset_type :: string
  arg_max_num_words :: int
  arg_max_length :: int
  arg_word_vocab_store_location :: string
  arg_debug :: bool
  arg_debug_dataset_proportion :: 'f
  arg_word_embedding_type :: "string option"
  arg_word_embedding_dimension :: "int option"
  arg_start_token :: string
  arg_end_token :: string
  arg_pad_token :: string
  arg_unk_token :: string
  arg_train_size :: 'f
  arg_test_size :: 'f
  arg_validation_size :: 'f
  arg_word_tokenizer :: 'w
  arg_word_tokenization_type :: string
  arg_character_tokenizer :: 'c

record ('w, 'c, 'f) base_text_classification =
  filename :: string
  dataset_type :: string
  max_num_words :: int
  max_length :: int
  store_location :: string
  debug :: bool
  debug_dataset_proportion :: 'f
  embedding_type :: "string option"
  embedding_dimension :: "int option"
  start_token :: string
  end_token :: string
  pad_token :: string
  unk_token :: string
  train_size :: 'f
  validation_size :: 'f
  test_size :: 'f
  word_tokenizer :: 'w
  word_tokenization_type :: string
  character_tokenizer :: 'c
  allowable_dataset_types :: "string list"

definition assign_attributes :: "('w, 'c, 'f) init_args \<Rightarrow> ('w, 'c, 'f) base_text_classification" where
  "assign_attributes a =
     \<lparr> filename = arg_filename a,
       dataset_type = arg_dataset_type a,
       max_num_words = arg_max_num_words a,
       max_length = arg_max_length a,
       store_location = arg_word_vocab_store_location a,
       debug = arg_debug a,
       debug_dataset_proportion = arg_debug_dataset_proportion a,
       embedding_type = arg_word_embedding_type a,
       embedding_dimension = arg_word_embedding_dimension a,
       start_token = arg_start_token a,
       end_token = arg_end_token a,
       pad_token = arg_pad_token a,
       unk_token = arg_unk_token a,
       train_size = arg_train_size a,
       validation_size = arg_validation_size a,
       test_size = arg_test_size a,
       word_tokenizer = arg_word_tokenizer a,
       word_tokenization_type = arg_word_tokenization_type a,
       character_tokenizer = arg_character_tokenizer a,
       allowable_dataset_types = [''train'', ''valid'', ''test''] \<rparr>"

text \<open>
  \<open>init\<close> returns the console output and either the exception or the constructed
  object. The divider is printed before the assertion runs. When the assertion fails the
  exception leaves the constructor, so no object is returned and a subclass's constructor
  does not get past its \<^verbatim>\<open>super().__init__\<close> call.
\<close>

definition init :: "('w, 'c, 'f) init_args \<Rightarrow> string list \<times> (error + ('w, 'c, 'f) base_text_classification)" where
  "init a =
     (let self = assign_attributes a;
          printed = [upper (dataset_type self) @ '' DATASET'']
      in if dataset_type self \<in> set (allowable_dataset_types self)
         then (printed, Inr self)
         else (printed, Inl AssertionError))"


section \<open>The annotation loader (\<^verbatim>\<open>ScienceIEDataUtils._get_annotations_for_entity\<close>)\<close>

text \<open>
  The annotation file is the list of its lines, each with its line terminator, as the
  iteration \<^verbatim>\<open>for line in fp\<close> yields them. A call of \<^verbatim>\<open>msg_printer.warn\<close> is
  recorded with its \<^verbatim>\<open>show\<close> flag. \<open>parse_line\<close> is the body of the loop for one line:
  \<open>Skip\<close> when the outer condition fails, \<open>Warn\<close> for the branch that warns and continues,
  \<open>Found\<close> when an annotation is appended, \<open>NoMatch\<close> when the tag is another entity's;
  a failing \<^verbatim>\<open>int(...)\<close> raises ValueError, which nothing catches.
  \<open>get_annotations_for_entity\<close> stands for the private method
  \<^verbatim>\<open>_get_annotations_for_entity\<close>.
\<close>

record annotation =
  ann_start :: int
  ann_end :: int
  ann_words :: string
  ann_entity_number :: string
  ann_tag :: string

datatype warning = Skipping string | ZeroAnnotations

type_synonym warn_call = "warning \<times> bool"

datatype line_result = Skip | Warn | Found annotation | NoMatch

definition parse_line :: "string \<Rightarrow> string \<Rightarrow> error + line_result" where
  "parse_line entity line =
     (if startswith (strip line) ''T'' \<and> length (split_on tab line) = 3 then
        (case split_on tab line of
           [entity_number, tag_start_end, words] \<Rightarrow>
             if length (split_ws tag_start_end) \<noteq> 3 then Inr Warn
             else (case split_ws tag_start_end of
                     [tag, start, end'] \<Rightarrow>
                       (case py_int start of
                          Inl e \<Rightarrow> Inl e
                        | Inr start_i \<Rightarrow>
                            (case py_int end' of
                               Inl e \<Rightarrow> Inl e
                             | Inr end_i \<Rightarrow>
                                 if lower tag = lower entity then
                                   Inr (Found \<lparr> ann_start = start_i, ann_end = end_i,
                                                ann_words = words,
                                                ann_entity_number = entity_number,
                                                ann_tag = tag \<rparr>)
                                 else Inr NoMatch))
                   | _ \<Rightarrow> Inl ValueError)
         | _ \<Rightarrow> Inl ValueError)
      else Inr Skip)"

fun read_lines :: "bool \<Rightarrow> string \<Rightarrow> string list \<Rightarrow> annotation list \<Rightarrow> warn_call list
                     \<Rightarrow> error + annotation list \<times> warn_call list" where
  "read_lines ignore_warning entity [] annotations warns = Inr (annotations, warns)"
| "read_lines ignore_warning entity (line # fp) annotations warns =
     (case parse_line entity line of
        Inl e \<Rightarrow> Inl e
      | Inr Skip \<Rightarrow> read_lines ignore_warning entity fp annotations warns
      | Inr NoMatch \<Rightarrow> read_lines ignore_warning entity fp annotations warns
      | Inr Warn \<Rightarrow>
          read_lines ignore_warning entity fp annotations
            (warns @ [(Skipping line, \<not> ignore_warning)])
      | Inr (Found annotation) \<Rightarrow>
          read_lines ignore_warning entity fp (annotations @ [annotation]) warns)"

definition get_annotations_for_entity ::
    "bool \<Rightarrow> string list \<Rightarrow> string \<Rightarrow> error + annotation list \<times> warn_call list" where
  "get_annotations_for_entity ignore_warning fp entity =
     (case read_lines ignore_warning entity fp [] [] of
        Inl e \<Rightarrow> Inl e
      | Inr (annotations, warns) \<Rightarrow>
          if length annotations = 0
          then Inr (annotations, warns @ [(ZeroAnnotations, \<not> ignore_warning)])
          else Inr (annotations, warns))"




text \<open>
  The format of a line, for the statements about the loader. A line is a \<open>candidate\<close>
  when it passes the outer condition of the loop: its stripped text starts with \<open>T\<close> and
  it has exactly three tab-separated fields. It is \<open>well_formed\<close> when moreover the middle
  field has exactly three whitespace-separated parts (tag, start, end), and its
  \<open>offsets_parse\<close> when \<^verbatim>\<open>int\<close> accepts both offsets. \<open>line_annotation\<close> is the
  dictionary the loop builds from a well-formed line.
\<close>

definition candidate :: "string \<Rightarrow> bool" where
  "candidate line = (startswith (strip line) ''T'' \<and> length (split_on tab line) = 3)"

definition middle_parts :: "string \<Rightarrow> string list" where
  "middle_parts line = split_ws (split_on tab line ! 1)"

definition well_formed :: "string \<Rightarrow> bool" where
  "well_formed line = (candidate line \<and> length (middle_parts line) = 3)"

definition offsets_parse :: "string \<Rightarrow> bool" where
  "offsets_parse line =
     (\<not> isl (py_int (middle_parts line ! 1)) \<and> \<not> isl (py_int (middle_parts line ! 2)))"

definition tag_matches :: "string \<Rightarrow> string \<Rightarrow> bool" where
  "tag_matches entity line = (lower (middle_parts line ! 0) = lower entity)"

definition line_annotation :: "string \<Rightarrow> annotation" where
  "line_annotation line =
     \<lparr> ann_start = projr (py_int (middle_parts line ! 1)),
       ann_end = projr (py_int (middle_parts line ! 2)),
       ann_words = split_on tab line ! 2,
       ann_entity_number = split_on tab line ! 0,
       ann_tag = middle_parts line ! 0 \<rparr>"

text \<open>An annotation file with one line of each kind.\<close>

definition ann_file_example :: "string list" where
  "ann_file_example =
     [''T1'' @ [tab] @ ''Task 0 2'' @ [tab] @ ''AI'' @ newline,
      ''T2 Task 3 5 is'' @ newline,
      ''T3'' @ [tab] @ ''Task 3 5;6 9'' @ [tab] @ ''is useful'' @ newline,
      ''T4'' @ [tab] @ ''Process 6 12'' @ [tab] @ ''useful'' @ newline,
      ''T5'' @ [tab] @ ''task 6 12'' @ [tab] @ ''useful'' @ newline]"


section \<open>BILOU conversion (\<^verbatim>\<open>ScienceIEDataUtils\<close>)\<close>

text \<open>
  A spaCy document is the list of its tokens; of a token the code reads the text, the
  character offset, \<^verbatim>\<open>is_space\<close> and \<^verbatim>\<open>is_sent_start\<close>. The tokenizer
  (\<^verbatim>\<open>self.nlp\<close>) and \<^verbatim>\<open>spacy.gold.biluo_tags_from_offsets\<close> are library code: the
  document is an input of the model, and the library function is a parameter
  \<open>biluo_tags_from_offsets\<close> of the functions that call it.

  \<open>bilou_tags\<close> is the common beginning of \<^verbatim>\<open>_get_bilou_lines_for_entity\<close> (lines
  104--117) and \<^verbatim>\<open>get_sentence_wise_bilou_lines\<close> (lines 164--179);
  \<open>bilou_lines_for_entity\<close> stands for \<^verbatim>\<open>_get_bilou_lines_for_entity\<close>, and
  \<open>sentence_wise_bilou_lines\<close> for \<^verbatim>\<open>get_sentence_wise_bilou_lines\<close> after the
  annotations and the text were read.
\<close>

record token =
  tok_text :: string
  tok_idx :: nat
  is_space :: bool
  is_sent_start :: bool

type_synonym doc = "token list"
type_synonym entity_span = "int \<times> int \<times> string"
type_synonym biluo_fn = "doc \<Rightarrow> entity_span list \<Rightarrow> error + string list"

definition conll_col_sep :: string where
  "conll_col_sep = '' ''"

definition entities_of :: "annotation list \<Rightarrow> entity_span list" where
  "entities_of annotations = map (\<lambda>annotation. (ann_start annotation, ann_end annotation, ann_tag annotation)) annotations"

definition outside_tag :: "string \<Rightarrow> string \<Rightarrow> string" where
  "outside_tag entity tag = (if startswith tag ''O'' \<or> tag = ''-'' then ''O-'' @ entity else tag)"

definition bilou_line :: "token \<Rightarrow> string \<Rightarrow> string" where
  "bilou_line token tag = tok_text token @ conll_col_sep @ join conll_col_sep (replicate 3 tag)"

definition bilou_tags :: "biluo_fn \<Rightarrow> doc \<Rightarrow> annotation list \<Rightarrow> string \<Rightarrow> error + string list" where
  "bilou_tags biluo_tags_from_offsets doc annotations entity =
     (case biluo_tags_from_offsets doc (entities_of annotations) of
        Inl e \<Rightarrow> Inl e
      | Inr tags \<Rightarrow> Inr (map (outside_tag entity) tags))"

definition bilou_lines_for_entity :: "biluo_fn \<Rightarrow> doc \<Rightarrow> annotation list \<Rightarrow> string \<Rightarrow> error + string list" where
  "bilou_lines_for_entity biluo_tags_from_offsets doc annotations entity =
     (case bilou_tags biluo_tags_from_offsets doc annotations entity of
        Inl e \<Rightarrow> Inl e
      | Inr tags \<Rightarrow>
          Inr (map (\<lambda>(token, tag). bilou_line token tag)
                 (filter (\<lambda>(token, tag). \<not> is_space token) (zip doc tags))))"

text \<open>
  In \<^verbatim>\<open>get_sentence_wise_bilou_lines\<close> the list \<^verbatim>\<open>current_sent\<close> is appended to
  \<^verbatim>\<open>sentences\<close> and may be mutated afterwards, so lists are objects in a store:
  \<open>heap\<close> maps an address (an index) to a list's contents, \<open>sentences\<close> holds
  addresses, and \<open>current_sent\<close> is the address the variable refers to. A list display
  \<^verbatim>\<open>[...]\<close> allocates a new object; \<^verbatim>\<open>current_sent.append\<close> updates the object in
  place.
\<close>

record sent_state =
  heap :: "string list list"
  sentences :: "nat list"
  current_sent :: nat

definition new_list :: "string list \<Rightarrow> sent_state \<Rightarrow> sent_state" where
  "new_list xs st = st\<lparr> heap := heap st @ [xs], current_sent := length (heap st) \<rparr>"

definition append_current :: "string \<Rightarrow> sent_state \<Rightarrow> sent_state" where
  "append_current x st =
     st\<lparr> heap := (heap st)[current_sent st := heap st ! current_sent st @ [x]] \<rparr>"

definition push_sentence :: "sent_state \<Rightarrow> sent_state" where
  "push_sentence st = st\<lparr> sentences := sentences st @ [current_sent st] \<rparr>"

definition sent_step :: "sent_state \<Rightarrow> string \<times> token \<Rightarrow> sent_state" where
  "sent_step st p =
     (case p of (tag, token) \<Rightarrow>
        if is_sent_start token then
          (let st' = push_sentence st
           in if \<not> is_space token then new_list [bilou_line token tag] st' else st')
        else
          (if \<not> is_space token then append_current (bilou_line token tag) st else st))"

text \<open>
  \<^verbatim>\<open>len(list(doc.sents))\<close>: the library starts a new sentence at every token after the
  first whose \<^verbatim>\<open>is_sent_start\<close> is true.
\<close>

definition doc_sents_count :: "doc \<Rightarrow> nat" where
  "doc_sents_count doc =
     (case doc of [] \<Rightarrow> 0 | _ # rest \<Rightarrow> Suc (length (filter is_sent_start rest)))"

definition sentence_wise_bilou_lines ::
    "biluo_fn \<Rightarrow> doc \<Rightarrow> annotation list \<Rightarrow> string \<Rightarrow> error + string list list" where
  "sentence_wise_bilou_lines biluo_tags_from_offsets doc annotations entity_type =
     (case bilou_tags biluo_tags_from_offsets doc annotations entity_type of
        Inl e \<Rightarrow> Inl e
      | Inr tags \<Rightarrow>
          (case doc of
             [] \<Rightarrow> Inl IndexError
           | doc0 # doc_rest \<Rightarrow>
               (case (if \<not> is_space doc0
                      then (case tags of
                              [] \<Rightarrow> Inl IndexError
                            | tag0 # _ \<Rightarrow> Inr [bilou_line doc0 tag0])
                      else Inr []) of
                  Inl e \<Rightarrow> Inl e
                | Inr first_sent \<Rightarrow>
                    (let st0 = \<lparr> heap = [first_sent], sentences = [], current_sent = 0 \<rparr>;
                         st1 = foldl sent_step st0 (zip (drop 1 tags) doc_rest);
                         st2 = push_sentence st1
                     in if length (sentences st2) = doc_sents_count doc
                        then Inr (map (\<lambda>a. heap st2 ! a) (sentences st2))
                        else Inl AssertionError))))"


text \<open>
  \<^verbatim>\<open>merge_files\<close>: the three per-entity files are read line by line in step; a
  non-blank line is unpacked into a word and three tag columns, which raises ValueError
  unless the line has exactly four fields. The result is the text written to the output
  file.
\<close>

definition unpack4 :: "string list \<Rightarrow> error + string \<times> string \<times> string \<times> string" where
  "unpack4 parts =
     (case parts of
        [a, b, c, d] \<Rightarrow> Inr (a, b, c, d)
      | _ \<Rightarrow> Inl ValueError)"

definition merge_line :: "string \<Rightarrow> string \<Rightarrow> string \<Rightarrow> error + string" where
  "merge_line task_line process_line material_line =
     (if strip task_line \<noteq> [] then
        (case unpack4 (split_on (CHR '' '') (strip task_line)) of
           Inl e \<Rightarrow> Inl e
         | Inr (word1, _, _, task_tag) \<Rightarrow>
             (case unpack4 (split_on (CHR '' '') (strip process_line)) of
                Inl e \<Rightarrow> Inl e
              | Inr (word2, _, _, process_tag) \<Rightarrow>
                  (case unpack4 (split_on (CHR '' '') (strip material_line)) of
                     Inl e \<Rightarrow> Inl e
                   | Inr (word, _, _, material_tag) \<Rightarrow>
                       Inr (join conll_col_sep [word, task_tag, process_tag, material_tag]
                            @ newline))))
      else Inr newline)"

fun merge_files :: "string list \<Rightarrow> string list \<Rightarrow> string list \<Rightarrow> error + string" where
  "merge_files (task_line # task_fp) (process_line # process_fp) (material_line # material_fp) =
     (case merge_line task_line process_line material_line of
        Inl e \<Rightarrow> Inl e
      | Inr out \<Rightarrow>
          (case merge_files task_fp process_fp material_fp of
             Inl e \<Rightarrow> Inl e
           | Inr rest \<Rightarrow> Inr (out @ rest)))"
| "merge_files _ _ _ = Inr []"


section \<open>The library's \<^verbatim>\<open>biluo_tags_from_offsets\<close>\<close>

text \<open>
  A model of \<^verbatim>\<open>spacy.gold.biluo_tags_from_offsets(doc, entities)\<close> of spaCy 2, which
  the repository imports; it instantiates the parameter \<open>biluo_tags_from_offsets\<close> in
  statements about tokens and annotation intervals. The library builds two dictionaries
  from character offsets to token indices (\<open>starts\<close>, \<open>ends\<close>: a later token replaces an
  earlier one with the same offset), starts from a list of \<open>-\<close>, writes \<open>U-label\<close>, or
  \<open>B-label\<close>, \<open>I-label\<close> ... \<open>L-label\<close>, for every entity whose two offsets are token
  boundaries, and at the end gives \<open>O\<close> to every token none of whose characters lies in
  an entity. A token that overlaps an entity without being tagged keeps \<open>-\<close>.
\<close>

definition token_chars :: "token \<Rightarrow> int list" where
  "token_chars token = map int [tok_idx token ..< tok_idx token + length (tok_text token)]"

definition in_entity :: "entity_span list \<Rightarrow> int \<Rightarrow> bool" where
  "in_entity entities i = list_ex (\<lambda>(start_char, end_char, label). start_char \<le> i \<and> i < end_char) entities"

definition overlaps :: "entity_span list \<Rightarrow> token \<Rightarrow> bool" where
  "overlaps entities token = list_ex (in_entity entities) (token_chars token)"

definition starts :: "doc \<Rightarrow> int \<Rightarrow> nat option" where
  "starts doc = map_of (rev (map (\<lambda>(i, token). (int (tok_idx token), i)) (enumerate 0 doc)))"

definition ends :: "doc \<Rightarrow> int \<Rightarrow> nat option" where
  "ends doc =
     map_of (rev (map (\<lambda>(i, token). (int (tok_idx token + length (tok_text token)), i))
                    (enumerate 0 doc)))"

definition mark_entity :: "doc \<Rightarrow> string list \<Rightarrow> entity_span \<Rightarrow> string list" where
  "mark_entity doc biluo ent =
     (case ent of (start_char, end_char, label) \<Rightarrow>
        (case (starts doc start_char, ends doc end_char) of
           (Some start_tok, Some end_tok) \<Rightarrow>
             if start_tok = end_tok then biluo[start_tok := ''U-'' @ label]
             else (foldl (\<lambda>b i. b[i := ''I-'' @ label])
                     (biluo[start_tok := ''B-'' @ label])
                     [Suc start_tok ..< end_tok])[end_tok := ''L-'' @ label]
         | _ \<Rightarrow> biluo))"

definition spacy_biluo_tags_from_offsets :: biluo_fn where
  "spacy_biluo_tags_from_offsets doc entities =
     (let biluo = foldl (mark_entity doc) (replicate (length doc) ''-'') entities
      in Inr (map (\<lambda>(token, tag). if overlaps entities token then tag else ''O'')
                (zip doc biluo)))"

text \<open>Tokens and annotations for examples.\<close>

definition tk :: "string \<Rightarrow> nat \<Rightarrow> token" where
  "tk s i = \<lparr> tok_text = s, tok_idx = i, is_space = False, is_sent_start = False \<rparr>"

definition ann :: "int \<Rightarrow> int \<Rightarrow> string \<Rightarrow> annotation" where
  "ann s e t = \<lparr> ann_start = s, ann_end = e, ann_words = [], ann_entity_number = ''T1'', ann_tag = t \<rparr>"

definition ai_doc :: doc where
  "ai_doc = [(tk ''AI'' 0)\<lparr> is_sent_start := True \<rparr>, tk ''is'' 3, tk ''useful'' 6, tk ''.'' 12]"

definition ai_annotations :: "annotation list" where
  "ai_annotations = [ann 0 2 ''Task'']"

definition two_sentence_doc :: doc where
  "two_sentence_doc =
     [tk ''A'' 0, tk ''.'' 1,
      \<lparr> tok_text = '' '', tok_idx = 3, is_space = True, is_sent_start = True \<rparr>,
      tk ''B'' 4]"

text \<open>
  A string is \<open>clean\<close> when it is not empty and holds no whitespace character, as the
  text of a token that is not a whitespace token and a tag are.
\<close>

definition clean :: "string \<Rightarrow> bool" where
  "clean s = (s \<noteq> [] \<and> list_all (\<lambda>c. \<not> isspace c) s)"

text \<open>The lines of the non-whitespace tokens among (tag, token) pairs, in order.\<close>

definition tagged_lines :: "(string \<times> token) list \<Rightarrow> string list" where
  "tagged_lines ps = map (\<lambda>(tag, token). bilou_line token tag)
                        (filter (\<lambda>(tag, token). \<not> is_space token) ps)"


section \<open>The stratified split (\<^verbatim>\<open>BaseTextClassification.get_train_valid_test_stratified_split\<close>)\<close>

text \<open>
  The method calls two library functions, which are parameters of the model:
  \<^item> \<open>stratified_shuffle_split test_size train_size random_state X y\<close> is the one split that
    \<^verbatim>\<open>StratifiedShuffleSplit(n_splits=1, test_size, train_size, random_state).split(X, y)\<close>
    yields, a pair of index arrays, or the exception it raises. The library's result is
    a function of these arguments: with an integer \<^verbatim>\<open>random_state\<close> it draws from a
    generator of its own, seeded with that integer.
  \<^item> \<open>random_rand n g\<close> is \<^verbatim>\<open>np.random.rand(n)\<close>: it reads the state \<open>g\<close> of NumPy's
    global generator, which the method never seeds, and returns \<open>n\<close> values and the
    next state.
  Fractions are values of an opaque type \<open>'f\<close>; \<open>one_minus\<close> is the floating-point
  \<^verbatim>\<open>1 - x\<close>.
\<close>

record ('f, 'x, 'g) library =
  stratified_shuffle_split :: "'f \<Rightarrow> 'f \<Rightarrow> nat \<Rightarrow> 'x list \<Rightarrow> nat list \<Rightarrow> error + nat list \<times> nat list"
  random_rand :: "nat \<Rightarrow> 'g \<Rightarrow> 'x list \<times> 'g"
  one_minus :: "'f \<Rightarrow> 'f"

text \<open>An exception ends the computation: \<open>bind_error\<close> passes it on.\<close>

definition bind_error :: "error + 'a \<Rightarrow> ('a \<Rightarrow> error + 'b) \<Rightarrow> error + 'b" where
  "bind_error m f = (case m of Inl e \<Rightarrow> Inl e | Inr x \<Rightarrow> f x)"

text \<open>
  \<^verbatim>\<open>[xs[idx] for idx in indices]\<close> (IndexError for an index out of range) and
  \<^verbatim>\<open>[classname2idx[label] for label in labels]\<close> (KeyError for a missing label).
\<close>

fun select :: "'a list \<Rightarrow> nat list \<Rightarrow> error + 'a list" where
  "select xs [] = Inr []"
| "select xs (idx # indices) =
     (if idx < length xs
      then bind_error (select xs indices) (\<lambda>rest. Inr (xs ! idx # rest))
      else Inl IndexError)"

fun class_indices :: "(string \<Rightarrow> nat option) \<Rightarrow> string list \<Rightarrow> error + nat list" where
  "class_indices classname2idx [] = Inr []"
| "class_indices classname2idx (label # labels) =
     (case classname2idx label of
        None \<Rightarrow> Inl KeyError
      | Some i \<Rightarrow> bind_error (class_indices classname2idx labels) (\<lambda>rest. Inr (i # rest)))"

text \<open>
  One stage of the method: the labels' class indices, the library split, and the four
  selections (lines 254--263 for the first stage, lines 278--293 for the second).
  \<open>get_train_valid_test_stratified_split\<close> takes the object \<open>self\<close>, whose
  \<open>test_size\<close>, \<open>train_size\<close> and \<open>validation_size\<close> it reads, and the state of the
  global generator; it returns the result or the exception, and the generator's state.
  In the second stage the library's first array gives the test examples and its second
  array the validation examples.
\<close>

definition split_and_select ::
    "('f, 'x, 'g) library \<Rightarrow> 'f \<Rightarrow> 'f \<Rightarrow> string list \<Rightarrow> string list \<Rightarrow> (string \<Rightarrow> nat option)
       \<Rightarrow> 'x list \<Rightarrow> error + (string list \<times> string list) \<times> (string list \<times> string list)" where
  "split_and_select lib test_sz train_sz lines labels classname2idx features =
     bind_error (class_indices classname2idx labels) (\<lambda>labels_idx_array.
     bind_error (stratified_shuffle_split lib test_sz train_sz 1729 features labels_idx_array)
       (\<lambda>(first_indices, second_indices).
     bind_error (select lines first_indices) (\<lambda>first_lines.
     bind_error (select labels first_indices) (\<lambda>first_labels.
     bind_error (select lines second_indices) (\<lambda>second_lines.
     bind_error (select labels second_indices) (\<lambda>second_labels.
       Inr ((first_lines, first_labels), (second_lines, second_labels))))))))"

type_synonym split_result =
  "(string list \<times> string list) \<times> (string list \<times> string list) \<times> (string list \<times> string list)"

definition get_train_valid_test_stratified_split ::
    "('f, 'x, 'g) library \<Rightarrow> ('w, 'c, 'f) base_text_classification \<Rightarrow> string list \<Rightarrow> string list
       \<Rightarrow> (string \<Rightarrow> nat option) \<Rightarrow> 'g \<Rightarrow> (error + split_result) \<times> 'g" where
  "get_train_valid_test_stratified_split lib self lines labels classname2idx g =
     (if length lines \<noteq> length labels then (Inl AssertionError, g)
      else
        (case random_rand lib (length lines) g of (features, g1) \<Rightarrow>
           (case split_and_select lib (test_size self) (train_size self) lines labels
                   classname2idx features of
              Inl e \<Rightarrow> (Inl e, g1)
            | Inr ((train_lines, train_labels), (test_valid_lines, test_valid_labels)) \<Rightarrow>
                if length test_valid_labels \<noteq> length test_valid_lines then (Inl AssertionError, g1)
                else
                  (case random_rand lib (length test_valid_lines) g1 of
                     (test_valid_features, g2) \<Rightarrow>
                       (case split_and_select lib (validation_size self)
                               (one_minus lib (validation_size self))
                               test_valid_lines test_valid_labels classname2idx
                               test_valid_features of
                          Inl e \<Rightarrow> (Inl e, g2)
                        | Inr ((test_lines, test_labels), (validation_lines, validation_labels)) \<Rightarrow>
                            (Inr ((train_lines, train_labels),
                                  (validation_lines, validation_labels),
                                  (test_lines, test_labels)), g2))))))"

text \<open>
  What the library guarantees of a split of \<open>n\<close> samples: the two index arrays have no
  index twice or in common and lie in \<open>0..<n\<close> (\<open>indices_disjoint\<close>); the samples
  \<open>X\<close> are used for their number only (\<open>features_ignored\<close>); \<^verbatim>\<open>rand(n)\<close> returns \<open>n\<close>
  values (\<open>rand_length\<close>).

  The library does not promise to use every sample: it puts \<^verbatim>\<open>ceil(test_size * n)\<close>
  indices in the test array and \<^verbatim>\<open>floor(train_size * n)\<close> in the train array, and
  leaves the others out. \<open>uses_every_sample lib test_sz train_sz n\<close> says that with
  these two sizes a split of \<open>n\<close> samples leaves none out, which is the case when the
  two numbers add up to \<open>n\<close>, as they do for sizes that add up to 1 and products free
  of rounding error.
\<close>

definition indices_disjoint :: "('f, 'x, 'g) library \<Rightarrow> bool" where
  "indices_disjoint lib =
     (\<forall>test_sz train_sz seed X y first second.
        stratified_shuffle_split lib test_sz train_sz seed X y = Inr (first, second)
        \<longrightarrow> distinct (first @ second) \<and> set (first @ second) \<subseteq> {0 ..< length y})"

definition uses_every_sample :: "('f, 'x, 'g) library \<Rightarrow> 'f \<Rightarrow> 'f \<Rightarrow> nat \<Rightarrow> bool" where
  "uses_every_sample lib test_sz train_sz n =
     (\<forall>seed X y first second.
        length y = n
        \<longrightarrow> stratified_shuffle_split lib test_sz train_sz seed X y = Inr (first, second)
        \<longrightarrow> {0 ..< n} \<subseteq> set (first @ second))"

definition features_ignored :: "('f, 'x, 'g) library \<Rightarrow> bool" where
  "features_ignored lib =
     (\<forall>test_sz train_sz seed X X' y. length X = length X' \<longrightarrow>
        stratified_shuffle_split lib test_sz train_sz seed X y
          = stratified_shuffle_split lib test_sz train_sz seed X' y)"

definition rand_length :: "('f, 'x, 'g) library \<Rightarrow> bool" where
  "rand_length lib = (\<forall>n g. length (fst (random_rand lib n g)) = n)"

text \<open>
  A library for examples: fractions are percentages, the split does not shuffle (the
  first array holds the first indices, the second array the following ones), and the
  generator's state is a counter.
\<close>

definition example_library :: "(nat, nat, nat) library" where
  "example_library =
     \<lparr> stratified_shuffle_split = (\<lambda>test_sz train_sz seed X y.
          (let n = length y; n_train = (train_sz * n) div 100;
               n_test = (test_sz * n + 99) div 100
           in if n_train = 0 \<or> n_test = 0 \<or> n_train + n_test > n then Inl ValueError
              else Inr ([0 ..< n_train], [n_train ..< n_train + n_test]))),
       random_rand = (\<lambda>n g. (map (\<lambda>i. g + i) [0 ..< n], g + n)),
       one_minus = (\<lambda>p. 100 - p) \<rparr>"

definition example_dataset :: "nat \<Rightarrow> nat \<Rightarrow> nat \<Rightarrow> (unit, unit, nat) base_text_classification" where
  "example_dataset train test validation =
     \<lparr> filename = ''f'', dataset_type = ''train'', max_num_words = 10, max_length = 5,
       store_location = ''v'', debug = False, debug_dataset_proportion = 10,
       embedding_type = None, embedding_dimension = None, start_token = ''<SOS>'',
       end_token = ''<EOS>'', pad_token = ''<PAD>'', unk_token = ''<UNK>'',
       train_size = train, validation_size = validation, test_size = test,
       word_tokenizer = (), word_tokenization_type = ''vanilla'',
       character_tokenizer = (), allowable_dataset_types = [''train'', ''valid'', ''test''] \<rparr>"

definition example_lines :: "string list" where
  "example_lines = [''a'', ''b'', ''c'', ''d'', ''e'', ''f'', ''g'', ''h'', ''i'', ''j'']"

definition example_labels :: "string list" where
  "example_labels = [''x'', ''y'', ''x'', ''y'', ''x'', ''y'', ''x'', ''y'', ''x'', ''y'']"

definition example_classname2idx :: "string \<Rightarrow> nat option" where
  "example_classname2idx = [''x'' \<mapsto> 0, ''y'' \<mapsto> 1]"



section \<open>From a CoNLL file back to character offsets (\<^verbatim>\<open>write_ann_file_from_conll_file\<close>)\<close>

text \<open>
  The first half of \<^verbatim>\<open>write_ann_file_from_conll_file\<close> (lines 254--274): the loop
  over the lines of the CoNLL file, which unpacks \<^verbatim>\<open>line.split()\<close> into a word and
  three tags, or into three tags with the word \<^verbatim>\<open>" "\<close> when there are only three
  fields (any other number of fields, a blank line too, raises ValueError out of the
  handler), and the three calls of the library's \<^verbatim>\<open>offsets_from_biluo_tags\<close> on the
  document of the text. What follows in the method formats these three lists of
  character offsets into annotation lines. The file is the list of its lines, each with
  its line terminator; the library function is the parameter \<open>offsets_from_biluo_tags\<close>.
\<close>

type_synonym offsets_fn = "doc \<Rightarrow> string list \<Rightarrow> error + entity_span list"

fun read_conll :: "string list \<Rightarrow> error + string list \<times> string list \<times> string list \<times> string list" where
  "read_conll [] = Inr ([], [], [], [])"
| "read_conll (line # fp) =
     bind_error
       (case split_ws line of
          [word, task_tag, process_tag, material_tag] \<Rightarrow>
            Inr (word, task_tag, process_tag, material_tag)
        | [task_tag, process_tag, material_tag] \<Rightarrow> Inr ('' '', task_tag, process_tag, material_tag)
        | _ \<Rightarrow> Inl ValueError)
       (\<lambda>(word, task_tag, process_tag, material_tag).
          bind_error (read_conll fp)
            (\<lambda>(words, task_tags, process_tags, material_tags).
               Inr (word # words, task_tag # task_tags, process_tag # process_tags,
                    material_tag # material_tags)))"

definition conll_char_offsets ::
    "offsets_fn \<Rightarrow> doc \<Rightarrow> string list
       \<Rightarrow> error + entity_span list \<times> entity_span list \<times> entity_span list" where
  "conll_char_offsets offsets_from_biluo_tags doc fp =
     bind_error (read_conll fp) (\<lambda>(words, task_tags, process_tags, material_tags).
     bind_error (offsets_from_biluo_tags doc task_tags) (\<lambda>task_char_offsets.
     bind_error (offsets_from_biluo_tags doc process_tags) (\<lambda>process_char_offsets.
     bind_error (offsets_from_biluo_tags doc material_tags) (\<lambda>material_char_offsets.
       Inr (task_char_offsets, process_char_offsets, material_char_offsets)))))"

text \<open>
  A model of the library's \<^verbatim>\<open>spacy.gold.offsets_from_biluo_tags(doc, tags)\<close> of
  spaCy 2, which instantiates the parameter in statements about a conversion there and
  back. \<^verbatim>\<open>tags_to_entities\<close> walks the tags with their positions and remembers where
  the open entity started: a tag that starts with \<open>O\<close> closes it, \<open>-\<close> is skipped,
  \<open>I\<close> needs an open entity (ValueError otherwise), \<open>U\<close> gives a one-token entity,
  \<open>B\<close> opens one, \<open>L\<close> closes it and gives the entity from its start to here; any
  other tag raises ValueError. The label is the tag without its first two characters.
  \<^verbatim>\<open>offsets_from_biluo_tags\<close> then takes, for every entity, the first character of
  its first token and the end of its last token (\<^verbatim>\<open>doc[start_idx : end_idx + 1]\<close>,
  where a missing start is the beginning of the document). A token position outside
  the document, which one tag per token never gives, is reported as IndexError.
\<close>

fun tags_to_entities_from :: "nat \<Rightarrow> nat option \<Rightarrow> string list \<Rightarrow> error + (string \<times> nat option \<times> nat) list" where
  "tags_to_entities_from i start [] = Inr []"
| "tags_to_entities_from i start (tag # tags) =
     (if startswith tag ''O'' then tags_to_entities_from (Suc i) None tags
      else if tag = ''-'' then tags_to_entities_from (Suc i) start tags
      else if startswith tag ''I'' then
        (if start = None then Inl ValueError else tags_to_entities_from (Suc i) start tags)
      else if startswith tag ''U'' then
        bind_error (tags_to_entities_from (Suc i) start tags)
          (\<lambda>entities. Inr ((drop 2 tag, Some i, i) # entities))
      else if startswith tag ''B'' then tags_to_entities_from (Suc i) (Some i) tags
      else if startswith tag ''L'' then
        bind_error (tags_to_entities_from (Suc i) None tags)
          (\<lambda>entities. Inr ((drop 2 tag, start, i) # entities))
      else Inl ValueError)"

definition tags_to_entities :: "string list \<Rightarrow> error + (string \<times> nat option \<times> nat) list" where
  "tags_to_entities tags = tags_to_entities_from 0 None tags"

definition token_end :: "token \<Rightarrow> nat" where
  "token_end token = tok_idx token + length (tok_text token)"

definition span_offsets :: "doc \<Rightarrow> string \<times> nat option \<times> nat \<Rightarrow> error + entity_span" where
  "span_offsets doc ent =
     (case ent of (label, start_idx, end_idx) \<Rightarrow>
        (let first = (case start_idx of None \<Rightarrow> 0 | Some a \<Rightarrow> a)
         in if first < length doc \<and> end_idx < length doc
            then Inr (int (tok_idx (doc ! first)), int (token_end (doc ! end_idx)), label)
            else Inl IndexError))"

fun sequence_error :: "(error + 'a) list \<Rightarrow> error + 'a list" where
  "sequence_error [] = Inr []"
| "sequence_error (m # ms) =
     bind_error m (\<lambda>x. bind_error (sequence_error ms) (\<lambda>xs. Inr (x # xs)))"

definition spacy_offsets_from_biluo_tags :: offsets_fn where
  "spacy_offsets_from_biluo_tags doc tags =
     bind_error (tags_to_entities tags)
       (\<lambda>token_offsets. sequence_error (map (span_offsets doc) token_offsets))"

text \<open>
  The documents and annotations of the conversion there and back. In \<open>doc_in_order\<close>
  the tokens follow one another in the text without overlap, and none is a whitespace
  token: each has a text that is not empty and holds no whitespace. An entity is
  \<open>aligned\<close> when its start is the offset of a token and its end the end of a token
  that does not come before; the entities \<open>tiles\<close> the document when each is aligned,
  they are listed in the order of the text without overlap, and no label holds
  whitespace.
\<close>

definition doc_in_order :: "doc \<Rightarrow> bool" where
  "doc_in_order doc =
     (sorted_wrt (\<lambda>t u. token_end t \<le> tok_idx u) doc
      \<and> list_all (\<lambda>t. \<not> is_space t \<and> clean (tok_text t)) doc)"

definition aligned :: "doc \<Rightarrow> entity_span \<Rightarrow> bool" where
  "aligned doc ent =
     (case ent of (start_char, end_char, label) \<Rightarrow>
        (case (starts doc start_char, ends doc end_char) of
           (Some a, Some b) \<Rightarrow> a \<le> b
         | _ \<Rightarrow> False))"

definition tiles :: "doc \<Rightarrow> entity_span list \<Rightarrow> bool" where
  "tiles doc entities =
     (list_all (aligned doc) entities
      \<and> sorted_wrt (\<lambda>(s, e, l) (s', e', l'). e \<le> s') entities
      \<and> list_all (\<lambda>(s, e, l). list_all (\<lambda>c. \<not> isspace c) l) entities)"

text \<open>
  Examples: two annotations that tile \<open>ai_doc\<close> (the token \<open>AI\<close>, and the three tokens
  from \<open>is\<close> to the full stop), and the document of the text \<^verbatim>\<open>"a  b"\<close>, whose second
  blank is a whitespace token.
\<close>

definition tiled_annotations :: "annotation list" where
  "tiled_annotations = [ann 0 2 ''Task'', ann 3 13 ''Task'']"

definition spaced_doc :: doc where
  "spaced_doc =
     [tk ''a'' 0,
      \<lparr> tok_text = '' '', tok_idx = 2, is_space = True, is_sent_start = False \<rparr>,
      tk ''b'' 3]"

text \<open>
  Notions of the proof. An aligned entity covers the tokens from position \<open>a\<close> to
  position \<open>b\<close> (\<open>token_span_of\<close>); \<open>tag_at\<close> is the tag that the first covering span
  of a list gives to a position, \<open>O\<close> without one; \<open>span_block\<close> lists the tags of one
  span; in \<open>spans_ok\<close> the spans lie in the document and each ends before the next
  starts.
\<close>

type_synonym token_span = "nat \<times> nat \<times> string"

definition token_span_of :: "doc \<Rightarrow> entity_span \<Rightarrow> token_span" where
  "token_span_of doc ent =
     (case ent of (start_char, end_char, label) \<Rightarrow>
        (the (starts doc start_char), the (ends doc end_char), label))"

definition covers :: "token_span \<Rightarrow> nat \<Rightarrow> bool" where
  "covers sp t = (case sp of (a, b, l) \<Rightarrow> a \<le> t \<and> t \<le> b)"

definition span_tag :: "token_span \<Rightarrow> nat \<Rightarrow> string" where
  "span_tag sp t =
     (case sp of (a, b, l) \<Rightarrow>
        if a = b then ''U-'' @ l
        else if t = a then ''B-'' @ l
        else if t = b then ''L-'' @ l
        else ''I-'' @ l)"

definition tag_at :: "token_span list \<Rightarrow> nat \<Rightarrow> string" where
  "tag_at sps t = (case find (\<lambda>sp. covers sp t) sps of None \<Rightarrow> ''O'' | Some sp \<Rightarrow> span_tag sp t)"

definition spans_ok :: "nat \<Rightarrow> token_span list \<Rightarrow> bool" where
  "spans_ok n sps =
     (sorted_wrt (\<lambda>(a, b, l) (a', b', l'). b < a') sps
      \<and> list_all (\<lambda>(a, b, l). a \<le> b \<and> b < n) sps)"

definition span_block :: "token_span \<Rightarrow> string list" where
  "span_block sp =
     (case sp of (a, b, l) \<Rightarrow>
        if a = b then [''U-'' @ l]
        else (''B-'' @ l) # replicate (b - a - 1) (''I-'' @ l) @ [''L-'' @ l])"

section \<open>Theorems: padding and packing\<close>

lemma length_pad_until: "length (pad_until n p toks) = length toks + n"
  by (induction n p toks rule: pad_until.induct) auto

lemma pad_until_replicate: "pad_until n p toks = toks @ replicate n p"
  by (induction n p toks rule: pad_until.induct) (auto simp: replicate_app_Cons_same)

lemma length_pack_to_length:
  "length (pack_to_length t L p a s e) = L"
  by (simp add: pack_to_length_def Let_def length_pad_until)

text \<open>
  C5. For every token sequence \<open>t\<close> and every \<open>max_length\<close> \<open>L\<close> the packed sequence has
  length exactly \<open>L\<close>. With \<open>m\<close> the sequence after the optional start/end markers were
  inserted (so the markers count toward \<open>L\<close>): if \<open>m\<close> is longer than \<open>L\<close> the result is
  the first \<open>L\<close> elements of \<open>m\<close> (truncation from the end, earliest tokens kept);
  otherwise it is \<open>m\<close> followed by \<open>L - length m\<close> copies of the pad token.
\<close>

theorem pack_to_length_exact:
  "length (pack_to_length t L p a s e) = L
   \<and> (length (with_start_end a s e t) > L \<longrightarrow>
        pack_to_length t L p a s e = take L (with_start_end a s e t))
   \<and> (length (with_start_end a s e t) \<le> L \<longrightarrow>
        pack_to_length t L p a s e
          = with_start_end a s e t @ replicate (L - length (with_start_end a s e t)) p)
   \<and> length (with_start_end True s e t) = length t + 2
   \<and> with_start_end False s e t = t"
  by (simp add: pack_to_length_def Let_def length_pad_until pad_until_replicate
        with_start_end_def)

theorem pack_to_length_exact_witness:
  "pack_to_length ''abcde'' 4 (CHR ''_'') True (CHR ''<'') (CHR ''>'') = ''<abc''
   \<and> pack_to_length ''ab'' 6 (CHR ''_'') True (CHR ''<'') (CHR ''>'') = ''<ab>__''
   \<and> pack_to_length ''abcde'' 3 (CHR ''_'') False (CHR ''<'') (CHR ''>'') = ''abc''
   \<and> pack_to_length ''ab'' 3 (CHR ''_'') False (CHR ''<'') (CHR ''>'') = ''ab_''"
  using pack_to_length_exact [where t = "''abcde''" and L = 4 and a = True
          and s = "CHR ''<''" and e = "CHR ''>''" and p = "CHR ''_''"]
        pack_to_length_exact [where t = "''ab''" and L = 6 and a = True
          and s = "CHR ''<''" and e = "CHR ''>''" and p = "CHR ''_''"]
        pack_to_length_exact [where t = "''abcde''" and L = 3 and a = False
          and s = "CHR ''<''" and e = "CHR ''>''" and p = "CHR ''_''"]
        pack_to_length_exact [where t = "''ab''" and L = 3 and a = False
          and s = "CHR ''<''" and e = "CHR ''>''" and p = "CHR ''_''"]
  by (simp add: with_start_end_def numeral_2_eq_2)

lemma forward_padded_lengths:
  "forward_padded_tokenized_text batch = Inr padded \<Longrightarrow>
     \<exists>max_len. (\<forall>row \<in> set padded. length row = max_len)"
  by (auto simp: forward_padded_tokenized_text_def Let_def length_pack_to_length
           split: list.splits)


section \<open>Theorems: the dataset constructor\<close>

text \<open>
  C9. Constructing a dataset with a \<open>dataset_type\<close> that is not one of \<open>train\<close>,
  \<open>valid\<close>, \<open>test\<close> raises AssertionError and returns no object; for each of the three
  allowed values the constructor returns the object, whose attributes are the
  arguments. In both cases the only console output is the divider line.
\<close>

theorem init_dataset_type_checked:
  "(arg_dataset_type a \<notin> {''train'', ''valid'', ''test''} \<longrightarrow>
      snd (init a) = Inl AssertionError)
   \<and> (arg_dataset_type a \<in> {''train'', ''valid'', ''test''} \<longrightarrow>
      snd (init a) = Inr (assign_attributes a)
      \<and> dataset_type (assign_attributes a) = arg_dataset_type a)
   \<and> fst (init a) = [upper (arg_dataset_type a) @ '' DATASET'']"
  by (auto simp: init_def Let_def assign_attributes_def)

theorem init_dataset_type_checked_witness:
  "snd (init (\<lparr> arg_filename = ''f'', arg_dataset_type = ''dev'', arg_max_num_words = 10,
       arg_max_length = 5, arg_word_vocab_store_location = ''v'', arg_debug = False,
       arg_debug_dataset_proportion = (), arg_word_embedding_type = None,
       arg_word_embedding_dimension = None, arg_start_token = ''<SOS>'',
       arg_end_token = ''<EOS>'', arg_pad_token = ''<PAD>'', arg_unk_token = ''<UNK>'',
       arg_train_size = (), arg_test_size = (), arg_validation_size = (),
       arg_word_tokenizer = (), arg_word_tokenization_type = ''vanilla'',
       arg_character_tokenizer = () \<rparr>)) = Inl AssertionError
   \<and> (\<exists>self. snd (init (\<lparr> arg_filename = ''f'', arg_dataset_type = ''valid'',
       arg_max_num_words = 10,
       arg_max_length = 5, arg_word_vocab_store_location = ''v'', arg_debug = False,
       arg_debug_dataset_proportion = (), arg_word_embedding_type = None,
       arg_word_embedding_dimension = None, arg_start_token = ''<SOS>'',
       arg_end_token = ''<EOS>'', arg_pad_token = ''<PAD>'', arg_unk_token = ''<UNK>'',
       arg_train_size = (), arg_test_size = (), arg_validation_size = (),
       arg_word_tokenizer = (), arg_word_tokenization_type = ''vanilla'',
       arg_character_tokenizer = () \<rparr>)) = Inr self \<and> dataset_type self = ''valid'')"
  using init_dataset_type_checked [of "\<lparr> arg_filename = ''f'', arg_dataset_type = ''dev'',
       arg_max_num_words = 10,
       arg_max_length = 5, arg_word_vocab_store_location = ''v'', arg_debug = False,
       arg_debug_dataset_proportion = (), arg_word_embedding_type = None,
       arg_word_embedding_dimension = None, arg_start_token = ''<SOS>'',
       arg_end_token = ''<EOS>'', arg_pad_token = ''<PAD>'', arg_unk_token = ''<UNK>'',
       arg_train_size = (), arg_test_size = (), arg_validation_size = (),
       arg_word_tokenizer = (), arg_word_tokenization_type = ''vanilla'',
       arg_character_tokenizer = () \<rparr>"]
    init_dataset_type_checked [of "\<lparr> arg_filename = ''f'', arg_dataset_type = ''valid'',
       arg_max_num_words = 10,
       arg_max_length = 5, arg_word_vocab_store_location = ''v'', arg_debug = False,
       arg_debug_dataset_proportion = (), arg_word_embedding_type = None,
       arg_word_embedding_dimension = None, arg_start_token = ''<SOS>'',
       arg_end_token = ''<EOS>'', arg_pad_token = ''<PAD>'', arg_unk_token = ''<UNK>'',
       arg_train_size = (), arg_test_size = (), arg_validation_size = (),
       arg_word_tokenizer = (), arg_word_tokenization_type = ''vanilla'',
       arg_character_tokenizer = () \<rparr>"]
  by simp


section \<open>Theorems: the annotation loader\<close>

lemma length3: "length xs = 3 \<Longrightarrow> xs = [xs ! 0, xs ! 1, xs ! 2]"
  by (cases xs; simp; cases "tl xs"; simp; cases "tl (tl xs)"; auto)

lemma parse_line_skip: "\<not> candidate line \<Longrightarrow> parse_line entity line = Inr Skip"
  by (auto simp: parse_line_def candidate_def)

lemma parse_line_warn:
  assumes "candidate line" "\<not> well_formed line"
  shows "parse_line entity line = Inr Warn"
proof -
  from assms have l3: "length (split_on tab line) = 3" and sw: "startswith (strip line) ''T''"
    by (auto simp: candidate_def)
  obtain a b c where abc: "split_on tab line = [a, b, c]"
    using length3[OF l3] by blast
  from assms have "length (split_ws b) \<noteq> 3"
    by (simp add: well_formed_def middle_parts_def abc)
  then show ?thesis using sw l3 by (simp add: parse_line_def abc)
qed

lemma parse_line_found:
  assumes "well_formed line" "offsets_parse line"
  shows "parse_line entity line =
           (if tag_matches entity line then Inr (Found (line_annotation line)) else Inr NoMatch)"
proof -
  from assms have l3: "length (split_on tab line) = 3" and sw: "startswith (strip line) ''T''"
    by (auto simp: candidate_def well_formed_def)
  obtain a b c where abc: "split_on tab line = [a, b, c]"
    using length3[OF l3] by blast
  from assms have m3: "length (split_ws b) = 3"
    by (simp add: well_formed_def middle_parts_def abc)
  obtain t s e where tse: "split_ws b = [t, s, e]"
    using length3[OF m3] by blast
  from assms(2) have ns: "\<not> isl (py_int s)" and ne: "\<not> isl (py_int e)"
    by (simp_all add: offsets_parse_def middle_parts_def abc tse)
  from ns obtain si where si: "py_int s = Inr si" by (cases "py_int s") auto
  from ne obtain ei where ei: "py_int e = Inr ei" by (cases "py_int e") auto
  show ?thesis using sw l3
    by (simp add: parse_line_def abc tse si ei tag_matches_def line_annotation_def middle_parts_def)
qed

lemma read_lines_char:
  assumes "\<forall>line \<in> set fp. well_formed line \<longrightarrow> offsets_parse line"
  shows "read_lines ig entity fp anns warns =
           Inr (anns @ map line_annotation (filter (\<lambda>l. well_formed l \<and> tag_matches entity l) fp),
                warns @ map (\<lambda>l. (Skipping l, \<not> ig)) (filter (\<lambda>l. candidate l \<and> \<not> well_formed l) fp))"
  using assms
proof (induction fp arbitrary: anns warns)
  case Nil
  then show ?case by simp
next
  case (Cons line fp)
  then have IH: "\<And>anns warns. read_lines ig entity fp anns warns =
           Inr (anns @ map line_annotation (filter (\<lambda>l. well_formed l \<and> tag_matches entity l) fp),
                warns @ map (\<lambda>l. (Skipping l, \<not> ig)) (filter (\<lambda>l. candidate l \<and> \<not> well_formed l) fp))"
    by simp
  consider (skip) "\<not> candidate line" | (warn) "candidate line" "\<not> well_formed line" | (wf) "well_formed line"
    by blast
  then show ?case
  proof cases
    case skip
    then have "\<not> well_formed line" by (simp add: well_formed_def)
    with skip show ?thesis by (simp add: parse_line_skip IH)
  next
    case warn
    then show ?thesis by (simp add: parse_line_warn IH)
  next
    case wf
    then have op: "offsets_parse line" using Cons.prems by simp
    from wf have "candidate line" by (simp add: well_formed_def)
    with wf show ?thesis by (simp add: parse_line_found[OF wf op] IH)
  qed
qed

text \<open>
  C3, as amended. A line that is not a candidate (its stripped text does not start with
  \<open>T\<close>, or it does not have exactly three tab-separated fields) is skipped without a
  warning; a candidate whose middle field does not have exactly three
  whitespace-separated parts is skipped with a \<open>Skipping\<close> warning; loading continues in
  both cases. When the offsets of every well-formed line parse as integers, the load
  returns, in file order, exactly the annotations of the well-formed lines whose tag
  equals the requested entity up to case, and one more warning when there is none.
\<close>

theorem load_amended:
  assumes "\<forall>line \<in> set fp. well_formed line \<longrightarrow> offsets_parse line"
  shows "get_annotations_for_entity ig fp entity =
           Inr (map line_annotation (filter (\<lambda>l. well_formed l \<and> tag_matches entity l) fp),
                map (\<lambda>l. (Skipping l, \<not> ig)) (filter (\<lambda>l. candidate l \<and> \<not> well_formed l) fp)
                @ (if filter (\<lambda>l. well_formed l \<and> tag_matches entity l) fp = []
                   then [(ZeroAnnotations, \<not> ig)] else []))"
  by (simp add: get_annotations_for_entity_def read_lines_char[OF assms])

theorem load_amended_witness:
  "get_annotations_for_entity False ann_file_example ''Task'' =
     Inr ([\<lparr> ann_start = 0, ann_end = 2, ann_words = ''AI'' @ newline,
              ann_entity_number = ''T1'', ann_tag = ''Task'' \<rparr>,
           \<lparr> ann_start = 6, ann_end = 12, ann_words = ''useful'' @ newline,
              ann_entity_number = ''T5'', ann_tag = ''task'' \<rparr>],
          [(Skipping (''T3'' @ [tab] @ ''Task 3 5;6 9'' @ [tab] @ ''is useful'' @ newline), True)])"
proof -
  have h: "\<forall>line \<in> set ann_file_example. well_formed line \<longrightarrow> offsets_parse line"
    by code_simp
  have a: "map line_annotation (filter (\<lambda>l. well_formed l \<and> tag_matches ''Task'' l) ann_file_example)
      = [\<lparr> ann_start = 0, ann_end = 2, ann_words = ''AI'' @ newline,
              ann_entity_number = ''T1'', ann_tag = ''Task'' \<rparr>,
           \<lparr> ann_start = 6, ann_end = 12, ann_words = ''useful'' @ newline,
              ann_entity_number = ''T5'', ann_tag = ''task'' \<rparr>]"
    by code_simp
  have f: "filter (\<lambda>l. well_formed l \<and> tag_matches ''Task'' l) ann_file_example \<noteq> []"
    by code_simp
  have w: "filter (\<lambda>l. candidate l \<and> \<not> well_formed l) ann_file_example
      = [''T3'' @ [tab] @ ''Task 3 5;6 9'' @ [tab] @ ''is useful'' @ newline]"
    by code_simp
  show ?thesis
    using load_amended [OF h, of False "''Task''"] by (simp add: a f w)
qed

text \<open>
  C3, as stated, fails: a line without tabs does not match the three-field format, and
  it is skipped with no warning at all.
\<close>

theorem load_counterexample:
  "\<not> candidate (''T2 Task 3 5 is'' @ newline)
   \<and> get_annotations_for_entity False
        [''T2 Task 3 5 is'' @ newline, ''T1'' @ [tab] @ ''Task 0 2'' @ [tab] @ ''AI'' @ newline] ''Task''
      = Inr ([\<lparr> ann_start = 0, ann_end = 2, ann_words = ''AI'' @ newline,
              ann_entity_number = ''T1'', ann_tag = ''Task'' \<rparr>], [])"
  by code_simp

text \<open>
  A candidate line with three parts in the middle field whose offsets are not integers
  is not skipped: \<^verbatim>\<open>int\<close> raises ValueError and the load of the whole file stops.
\<close>

lemma load_aborts_on_non_integer_offset:
  "get_annotations_for_entity False
        [''T1'' @ [tab] @ ''Task 0 x'' @ [tab] @ ''AI'' @ newline,
         ''T2'' @ [tab] @ ''Task 3 5'' @ [tab] @ ''is'' @ newline] ''Task''
      = Inl ValueError"
  by code_simp

section \<open>Theorems: BILOU conversion\<close>

lemma length_mark_entity [simp]: "length (mark_entity doc biluo ent) = length biluo"
proof -
  have aux: "\<And>b xs l. length (foldl (\<lambda>b i. b[i := l]) b xs) = length b"
    subgoal for b xs l by (induction xs arbitrary: b) auto
    done
  show ?thesis
    by (auto simp: mark_entity_def aux split: prod.splits option.splits)
qed

lemma length_foldl_mark [simp]: "length (foldl (mark_entity doc) biluo ents) = length biluo"
  by (induction ents arbitrary: biluo) auto

lemma spacy_biluo_length:
  "spacy_biluo_tags_from_offsets doc entities = Inr raw \<Longrightarrow> length raw = length doc"
  by (auto simp: spacy_biluo_tags_from_offsets_def Let_def)

lemma spacy_biluo_outside:
  assumes "spacy_biluo_tags_from_offsets doc entities = Inr raw" "i < length doc"
    "\<not> overlaps entities (doc ! i)"
  shows "raw ! i = ''O''"
  using assms by (auto simp: spacy_biluo_tags_from_offsets_def Let_def)

lemma outside_tag_cases:
  "(startswith tag ''O'' \<or> tag = ''-'' \<longrightarrow> outside_tag entity tag = ''O-'' @ entity)
   \<and> (\<not> (startswith tag ''O'' \<or> tag = ''-'') \<longrightarrow> outside_tag entity tag = tag)
   \<and> outside_tag entity tag \<noteq> ''O'' \<and> outside_tag entity tag \<noteq> ''-''"
  by (auto simp: outside_tag_def startswith_def)

lemma ai_raw:
  "spacy_biluo_tags_from_offsets ai_doc (entities_of ai_annotations) = Inr [''U-Task'', ''O'', ''O'', ''O'']"
  by code_simp

lemma ai_tags:
  "bilou_tags spacy_biluo_tags_from_offsets ai_doc ai_annotations ''Task''
     = Inr [''U-Task'', ''O-Task'', ''O-Task'', ''O-Task'']"
  by code_simp

lemma ai_lines:
  "bilou_lines_for_entity spacy_biluo_tags_from_offsets ai_doc ai_annotations ''Task''
     = Inr [''AI U-Task U-Task U-Task'', ''is O-Task O-Task O-Task'',
            ''useful O-Task O-Task O-Task'', ''. O-Task O-Task O-Task'']"
  by code_simp

text \<open>
  C2. After the conversion every token whose library tag is \<open>O\<close> (no overlap with an
  annotation) or \<open>-\<close> (alignment with the annotation boundaries failed) carries the
  entity-qualified tag \<open>O-entity\<close>; no token carries the bare \<open>O\<close> or \<open>-\<close>; and a tag
  that begins with B, I, L or U is unchanged. With the library function as modelled,
  there is one tag per token, and every token that overlaps no annotation interval has
  the tag \<open>O-entity\<close>.
\<close>

theorem outside_tag_qualified:
  assumes "bilou_tags biluo_tags_from_offsets doc annotations entity = Inr tags"
  shows "\<exists>raw. biluo_tags_from_offsets doc (entities_of annotations) = Inr raw
           \<and> length tags = length raw
           \<and> (\<forall>i < length raw.
                 (raw ! i = ''O'' \<or> raw ! i = ''-'' \<longrightarrow> tags ! i = ''O-'' @ entity)
                 \<and> (raw ! i \<noteq> [] \<and> hd (raw ! i) \<in> set ''BILU'' \<longrightarrow> tags ! i = raw ! i)
                 \<and> tags ! i \<noteq> ''O'' \<and> tags ! i \<noteq> ''-'')
           \<and> (biluo_tags_from_offsets = spacy_biluo_tags_from_offsets \<longrightarrow>
                length raw = length doc
                \<and> (\<forall>i < length doc. \<not> overlaps (entities_of annotations) (doc ! i)
                      \<longrightarrow> tags ! i = ''O-'' @ entity))"
proof -
  from assms obtain raw where raw: "biluo_tags_from_offsets doc (entities_of annotations) = Inr raw"
    and tags: "tags = map (outside_tag entity) raw"
    by (auto simp: bilou_tags_def split: sum.splits)
  have 1: "\<forall>i < length raw.
                 (raw ! i = ''O'' \<or> raw ! i = ''-'' \<longrightarrow> tags ! i = ''O-'' @ entity)
                 \<and> (raw ! i \<noteq> [] \<and> hd (raw ! i) \<in> set ''BILU'' \<longrightarrow> tags ! i = raw ! i)
                 \<and> tags ! i \<noteq> ''O'' \<and> tags ! i \<noteq> ''-''"
  proof (intro allI impI)
    fix i assume i: "i < length raw"
    then have t: "tags ! i = outside_tag entity (raw ! i)" by (simp add: tags)
    have "raw ! i \<noteq> [] \<and> hd (raw ! i) \<in> set ''BILU'' \<longrightarrow> \<not> (startswith (raw ! i) ''O'' \<or> raw ! i = ''-'')"
      by (cases "raw ! i") (auto simp: startswith_def)
    then show "(raw ! i = ''O'' \<or> raw ! i = ''-'' \<longrightarrow> tags ! i = ''O-'' @ entity)
                 \<and> (raw ! i \<noteq> [] \<and> hd (raw ! i) \<in> set ''BILU'' \<longrightarrow> tags ! i = raw ! i)
                 \<and> tags ! i \<noteq> ''O'' \<and> tags ! i \<noteq> ''-''"
      using outside_tag_cases[of "raw ! i" entity] unfolding t
      by (auto simp: startswith_def)
  qed
  have 2: "biluo_tags_from_offsets = spacy_biluo_tags_from_offsets \<longrightarrow>
                length raw = length doc
                \<and> (\<forall>i < length doc. \<not> overlaps (entities_of annotations) (doc ! i)
                      \<longrightarrow> tags ! i = ''O-'' @ entity)"
  proof (intro impI conjI allI)
    assume e: "biluo_tags_from_offsets = spacy_biluo_tags_from_offsets"
    with raw have r: "spacy_biluo_tags_from_offsets doc (entities_of annotations) = Inr raw" by simp
    show l: "length raw = length doc" using spacy_biluo_length[OF r] .
    fix i assume "i < length doc" "\<not> overlaps (entities_of annotations) (doc ! i)"
    then have "raw ! i = ''O''" "i < length raw" using spacy_biluo_outside[OF r] l by auto
    then show "tags ! i = ''O-'' @ entity" using 1 by auto
  qed
  show ?thesis using raw tags 1 2 by auto
qed

theorem outside_tag_qualified_witness:
  "bilou_tags spacy_biluo_tags_from_offsets ai_doc ai_annotations ''Task''
     = Inr [''U-Task'', ''O-Task'', ''O-Task'', ''O-Task'']
   \<and> (\<exists>raw. spacy_biluo_tags_from_offsets ai_doc (entities_of ai_annotations) = Inr raw
           \<and> length [''U-Task'', ''O-Task'', ''O-Task'', ''O-Task''] = length raw
           \<and> (\<forall>i < length raw.
                 (raw ! i = ''O'' \<or> raw ! i = ''-'' \<longrightarrow>
                    [''U-Task'', ''O-Task'', ''O-Task'', ''O-Task''] ! i = ''O-'' @ ''Task'')
                 \<and> (raw ! i \<noteq> [] \<and> hd (raw ! i) \<in> set ''BILU'' \<longrightarrow>
                    [''U-Task'', ''O-Task'', ''O-Task'', ''O-Task''] ! i = raw ! i)
                 \<and> [''U-Task'', ''O-Task'', ''O-Task'', ''O-Task''] ! i \<noteq> ''O''
                 \<and> [''U-Task'', ''O-Task'', ''O-Task'', ''O-Task''] ! i \<noteq> ''-'')
           \<and> (spacy_biluo_tags_from_offsets = spacy_biluo_tags_from_offsets \<longrightarrow>
                length raw = length ai_doc
                \<and> (\<forall>i < length ai_doc. \<not> overlaps (entities_of ai_annotations) (ai_doc ! i)
                      \<longrightarrow> [''U-Task'', ''O-Task'', ''O-Task'', ''O-Task''] ! i = ''O-'' @ ''Task'')))"
  using ai_tags outside_tag_qualified [OF ai_tags] by blast

lemma isspace_space [simp]: "isspace (CHR '' '')"
  by (simp add: isspace_def whitespace_def)

lemma isspace_newline [simp]: "isspace (CHR 0x0A)"
  by (simp add: isspace_def whitespace_def)

lemma split_on_no_sep: "sep \<notin> set a \<Longrightarrow> split_on sep a = [a]"
  by (induction a) auto

lemma split_on_append:
  "sep \<notin> set a \<Longrightarrow> split_on sep (a @ sep # b) = a # split_on sep b"
  by (induction a) auto

lemma dropWhile_hd: "xs \<noteq> [] \<Longrightarrow> \<not> P (hd xs) \<Longrightarrow> dropWhile P xs = xs"
  by (cases xs) auto

lemma strip_line:
  assumes "s \<noteq> []" "\<not> isspace (hd s)" "\<not> isspace (last s)"
  shows "strip (s @ newline) = s"
proof -
  from assms have 1: "dropWhile isspace (s @ newline) = s @ newline"
    by (intro dropWhile_hd) simp_all
  have 2: "rev (s @ newline) = CHR 0x0A # rev s" by (simp add: newline_def)
  from assms have "rev s \<noteq> []" "hd (rev s) = last s" by (simp_all add: hd_rev)
  with assms have 3: "dropWhile isspace (rev s) = rev s"
    by (intro dropWhile_hd) simp_all
  have "strip (s @ newline) = rev (dropWhile isspace (rev (s @ newline)))"
    by (simp only: strip_def 1)
  also have "\<dots> = rev (dropWhile isspace (rev s))"
    by (simp only: 2 dropWhile.simps isspace_newline if_True)
  also have "\<dots> = s" by (simp add: 3)
  finally show ?thesis .
qed

lemma clean_no_space: "clean s \<Longrightarrow> CHR '' '' \<notin> set s"
  by (auto simp: clean_def list_all_iff)

lemma clean_hd_last: "clean s \<Longrightarrow> \<not> isspace (hd s) \<and> \<not> isspace (last s)"
  by (auto simp: clean_def list_all_iff)

lemma clean_outside_tag:
  assumes "clean r" "list_all (\<lambda>c. \<not> isspace c) entity"
  shows "clean (outside_tag entity r)"
  using assms by (auto simp: outside_tag_def clean_def isspace_def whitespace_def)

lemma bilou_line_eq:
  "bilou_line token tag = tok_text token @ '' '' @ tag @ '' '' @ tag @ '' '' @ tag"
  by (simp add: bilou_line_def conll_col_sep_def numeral_3_eq_3)

lemma bilou_line_columns:
  assumes "clean (tok_text token)" "clean tag"
  shows "split_on (CHR '' '') (bilou_line token tag) = [tok_text token, tag, tag, tag]"
    and "strip (bilou_line token tag @ newline) = bilou_line token tag"
proof -
  from assms have n: "CHR '' '' \<notin> set (tok_text token)" "CHR '' '' \<notin> set tag"
    by (auto dest: clean_no_space)
  show "split_on (CHR '' '') (bilou_line token tag) = [tok_text token, tag, tag, tag]"
    using n by (simp add: bilou_line_eq split_on_append split_on_no_sep)
  from assms have "tok_text token \<noteq> []" "tag \<noteq> []" by (auto simp: clean_def)
  then have "hd (bilou_line token tag) = hd (tok_text token)"
     "last (bilou_line token tag) = last tag" "bilou_line token tag \<noteq> []"
    by (auto simp: bilou_line_eq)
  then show "strip (bilou_line token tag @ newline) = bilou_line token tag"
    using clean_hd_last[OF assms(1)] clean_hd_last[OF assms(2)]
    by (intro strip_line) auto
qed

text \<open>
  C10. Every line of the per-entity conversion is the token, a space, and the same tag
  three times separated by spaces; split at spaces it has exactly four columns, and the
  unpacking of \<^verbatim>\<open>merge_files\<close> (strip, split at spaces, four targets) succeeds on
  the line as it is read back from the file. The hypotheses are what the tokenizer and
  the library guarantee: the text of a token that is not a whitespace token is clean,
  the library's tags are clean, and the entity name holds no whitespace.
\<close>

theorem bilou_lines_four_columns:
  assumes "bilou_lines_for_entity biluo_tags_from_offsets doc annotations entity = Inr lines"
    and "\<forall>token \<in> set doc. \<not> is_space token \<longrightarrow> clean (tok_text token)"
    and "\<forall>raw. biluo_tags_from_offsets doc (entities_of annotations) = Inr raw
           \<longrightarrow> list_all clean raw"
    and "list_all (\<lambda>c. \<not> isspace c) entity"
  shows "\<forall>line \<in> set lines. \<exists>word tag.
           line = word @ '' '' @ tag @ '' '' @ tag @ '' '' @ tag
           \<and> split_on (CHR '' '') line = [word, tag, tag, tag]
           \<and> unpack4 (split_on (CHR '' '') (strip (line @ newline))) = Inr (word, tag, tag, tag)"
proof
  fix line assume l: "line \<in> set lines"
  from assms(1) obtain raw where raw: "biluo_tags_from_offsets doc (entities_of annotations) = Inr raw"
    and lines: "lines = map (\<lambda>(token, tag). bilou_line token tag)
                 (filter (\<lambda>(token, tag). \<not> is_space token) (zip doc (map (outside_tag entity) raw)))"
    by (auto simp: bilou_lines_for_entity_def bilou_tags_def split: sum.splits)
  from l lines obtain token tag where tt: "(token, tag) \<in> set (zip doc (map (outside_tag entity) raw))"
    "\<not> is_space token" "line = bilou_line token tag"
    by auto
  from tt(1) have "token \<in> set doc" by (auto dest: set_zip_leftD)
  with tt(2) assms(2) have ct: "clean (tok_text token)" by auto
  from tt(1) obtain r where "r \<in> set raw" "tag = outside_tag entity r"
    by (auto dest!: set_zip_rightD)
  with assms(3) raw assms(4) have cg: "clean tag"
    by (auto simp: list_all_iff intro!: clean_outside_tag)
  show "\<exists>word tag.
           line = word @ '' '' @ tag @ '' '' @ tag @ '' '' @ tag
           \<and> split_on (CHR '' '') line = [word, tag, tag, tag]
           \<and> unpack4 (split_on (CHR '' '') (strip (line @ newline))) = Inr (word, tag, tag, tag)"
    using bilou_line_columns[OF ct cg] tt(3)
    by (intro exI[of _ "tok_text token"] exI[of _ tag]) (simp add: bilou_line_eq unpack4_def)
qed

theorem bilou_lines_four_columns_witness:
  "bilou_lines_for_entity spacy_biluo_tags_from_offsets ai_doc ai_annotations ''Task''
     = Inr [''AI U-Task U-Task U-Task'', ''is O-Task O-Task O-Task'',
            ''useful O-Task O-Task O-Task'', ''. O-Task O-Task O-Task'']
   \<and> list_all (\<lambda>token. clean (tok_text token)) ai_doc
   \<and> list_all clean [''U-Task'', ''O'', ''O'', ''O'']
   \<and> list_all (\<lambda>c. \<not> isspace c) ''Task''
   \<and> unpack4 (split_on (CHR '' '') (strip (''AI U-Task U-Task U-Task'' @ newline)))
       = Inr (''AI'', ''U-Task'', ''U-Task'', ''U-Task'')
   \<and> unpack4 (split_on (CHR '' '') (strip (''. O-Task O-Task O-Task'' @ newline)))
       = Inr (''.'', ''O-Task'', ''O-Task'', ''O-Task'')"
proof -
  have c2: "list_all (\<lambda>token. clean (tok_text token)) ai_doc" by code_simp
  then have h2: "\<forall>token \<in> set ai_doc. \<not> is_space token \<longrightarrow> clean (tok_text token)"
    by (simp add: list_all_iff)
  have c3: "list_all clean [''U-Task'', ''O'', ''O'', ''O'']" by code_simp
  then have h3: "\<forall>raw. spacy_biluo_tags_from_offsets ai_doc (entities_of ai_annotations) = Inr raw
           \<longrightarrow> list_all clean raw"
    by (simp add: ai_raw)
  have h4: "list_all (\<lambda>c. \<not> isspace c) ''Task''" by code_simp
  note all = bilou_lines_four_columns [OF ai_lines h2 h3 h4]
  have s1: "split_on (CHR '' '') ''AI U-Task U-Task U-Task'' = [''AI'', ''U-Task'', ''U-Task'', ''U-Task'']"
    by simp
  have s2: "split_on (CHR '' '') ''. O-Task O-Task O-Task'' = [''.'', ''O-Task'', ''O-Task'', ''O-Task'']"
    by simp
  from all have "\<exists>word tag. split_on (CHR '' '') ''AI U-Task U-Task U-Task'' = [word, tag, tag, tag]
       \<and> unpack4 (split_on (CHR '' '') (strip (''AI U-Task U-Task U-Task'' @ newline)))
            = Inr (word, tag, tag, tag)"
    by simp
  then have u1: "unpack4 (split_on (CHR '' '') (strip (''AI U-Task U-Task U-Task'' @ newline)))
       = Inr (''AI'', ''U-Task'', ''U-Task'', ''U-Task'')"
    unfolding s1 by auto
  from all have "\<exists>word tag. split_on (CHR '' '') ''. O-Task O-Task O-Task'' = [word, tag, tag, tag]
       \<and> unpack4 (split_on (CHR '' '') (strip (''. O-Task O-Task O-Task'' @ newline)))
            = Inr (word, tag, tag, tag)"
    by simp
  then have u2: "unpack4 (split_on (CHR '' '') (strip (''. O-Task O-Task O-Task'' @ newline)))
       = Inr (''.'', ''O-Task'', ''O-Task'', ''O-Task'')"
    unfolding s2 by auto
  show ?thesis using ai_lines c2 c3 h4 u1 u2 by blast
qed

lemma tagged_lines_swap:
  "tagged_lines (zip tags toks) =
     map (\<lambda>(token, tag). bilou_line token tag)
       (filter (\<lambda>(token, tag). \<not> is_space token) (zip toks tags))"
  unfolding tagged_lines_def
  by (induction tags toks rule: list_induct2') auto

lemma sent_step_no_start:
  assumes "\<not> is_sent_start token"
  shows "sent_step st (tag, token) =
           (if is_space token then st else append_current (bilou_line token tag) st)"
  using assms by (simp add: sent_step_def)

lemma append_current_twice:
  assumes "current_sent st < length (heap st)"
  shows "(append_current x st)\<lparr> heap :=
            (heap (append_current x st))[current_sent (append_current x st) :=
               heap (append_current x st) ! current_sent (append_current x st) @ ys] \<rparr>
         = st\<lparr> heap := (heap st)[current_sent st := heap st ! current_sent st @ x # ys] \<rparr>"
  using assms by (simp add: append_current_def)

lemma foldl_sent_step_no_start:
  assumes "\<forall>p \<in> set ps. \<not> is_sent_start (snd p)" "current_sent st < length (heap st)"
  shows "foldl sent_step st ps =
           st\<lparr> heap := (heap st)[current_sent st := heap st ! current_sent st @ tagged_lines ps] \<rparr>"
  using assms
proof (induction ps arbitrary: st)
  case Nil
  then show ?case by (simp add: tagged_lines_def)
next
  case (Cons p ps)
  obtain tag token where p: "p = (tag, token)" by (cases p)
  with Cons.prems have ns: "\<not> is_sent_start token" by simp
  show ?case
  proof (cases "is_space token")
    case True
    then have st: "sent_step st p = st" using ns by (simp add: sent_step_no_start p)
    have "foldl sent_step st ps =
      st\<lparr> heap := (heap st)[current_sent st := heap st ! current_sent st @ tagged_lines ps] \<rparr>"
      using Cons.prems by (intro Cons.IH) auto
    moreover have "tagged_lines (p # ps) = tagged_lines ps"
      using True by (simp add: tagged_lines_def p)
    ultimately show ?thesis by (simp add: st)
  next
    case False
    let ?st' = "append_current (bilou_line token tag) st"
    have st: "sent_step st p = ?st'" using ns False by (simp add: sent_step_no_start p)
    have c: "current_sent ?st' < length (heap ?st')"
      using Cons.prems(2) by (simp add: append_current_def)
    have "foldl sent_step ?st' ps =
      ?st'\<lparr> heap := (heap ?st')[current_sent ?st' := heap ?st' ! current_sent ?st' @ tagged_lines ps] \<rparr>"
      using Cons.prems(1) c by (intro Cons.IH) auto
    also have "\<dots> = st\<lparr> heap := (heap st)[current_sent st :=
                   heap st ! current_sent st @ bilou_line token tag # tagged_lines ps] \<rparr>"
      by (rule append_current_twice[OF Cons.prems(2)])
    finally have "foldl sent_step ?st' ps = st\<lparr> heap := (heap st)[current_sent st :=
                   heap st ! current_sent st @ bilou_line token tag # tagged_lines ps] \<rparr>" .
    moreover have "tagged_lines (p # ps) = bilou_line token tag # tagged_lines ps"
      using False by (simp add: tagged_lines_def p)
    ultimately show ?thesis by (simp add: st)
  qed
qed

text \<open>
  C8. In sentence-wise mode, a non-empty document in which no token after the first is a
  sentence start, tagged by the library with one tag per token, yields exactly one
  sentence, and its lines are the lines of the plain mode: those of all non-whitespace
  tokens of the document, in order.
\<close>

theorem single_sentence_without_boundaries:
  assumes "doc \<noteq> []"
    and "\<forall>token \<in> set (tl doc). \<not> is_sent_start token"
    and "biluo_tags_from_offsets doc (entities_of annotations) = Inr raw"
    and "length raw = length doc"
  shows "\<exists>lines. sentence_wise_bilou_lines biluo_tags_from_offsets doc annotations entity_type
                   = Inr [lines]
           \<and> bilou_lines_for_entity biluo_tags_from_offsets doc annotations entity_type
                   = Inr lines
           \<and> lines = map (\<lambda>(token, tag). bilou_line token tag)
                        (filter (\<lambda>(token, tag). \<not> is_space token)
                           (zip doc (map (outside_tag entity_type) raw)))"
proof -
  obtain doc0 rest where doc: "doc = doc0 # rest" using assms(1) by (cases doc) auto
  define tags where "tags = map (outside_tag entity_type) raw"
  from assms(4) doc obtain tag0 tags' where tags: "tags = tag0 # tags'"
    by (cases tags) (auto simp: tags_def)
  have bt: "bilou_tags biluo_tags_from_offsets doc annotations entity_type = Inr tags"
    by (simp add: bilou_tags_def assms(3) tags_def)
  define first_sent where "first_sent = (if \<not> is_space doc0 then [bilou_line doc0 tag0] else [])"
  define st0 where "st0 = \<lparr> heap = [first_sent], sentences = [], current_sent = 0 \<rparr>"
  have ns: "\<forall>p \<in> set (zip tags' rest). \<not> is_sent_start (snd p)"
    using assms(2) doc by (auto dest: set_zip_rightD)
  have f: "foldl sent_step st0 (zip tags' rest) =
             st0\<lparr> heap := [first_sent @ tagged_lines (zip tags' rest)] \<rparr>"
    using foldl_sent_step_no_start[OF ns, of st0] by (simp add: st0_def)
  have cnt: "doc_sents_count doc = 1"
    using assms(2) doc by (simp add: doc_sents_count_def filter_empty_conv)
  have plain: "map (\<lambda>(token, tag). bilou_line token tag)
                        (filter (\<lambda>(token, tag). \<not> is_space token) (zip doc tags))
         = first_sent @ tagged_lines (zip tags' rest)"
    by (simp add: doc tags first_sent_def tagged_lines_swap)
  have sw: "sentence_wise_bilou_lines biluo_tags_from_offsets doc annotations entity_type
              = Inr [first_sent @ tagged_lines (zip tags' rest)]"
  proof (cases "is_space doc0")
    case True
    then have fs: "first_sent = []" by (simp add: first_sent_def)
    from f have "foldl sent_step \<lparr> heap = [[]], sentences = [], current_sent = 0 \<rparr> (zip tags' rest)
        = \<lparr> heap = [tagged_lines (zip tags' rest)], sentences = [], current_sent = 0 \<rparr>"
      by (simp add: st0_def fs)
    then show ?thesis using cnt[unfolded doc] True
      by (simp add: sentence_wise_bilou_lines_def bt[unfolded doc tags] fs
          push_sentence_def Let_def doc)
  next
    case False
    then have fs: "first_sent = [bilou_line doc0 tag0]" by (simp add: first_sent_def)
    from f have "foldl sent_step \<lparr> heap = [[bilou_line doc0 tag0]], sentences = [], current_sent = 0 \<rparr>
          (zip tags' rest)
        = \<lparr> heap = [bilou_line doc0 tag0 # tagged_lines (zip tags' rest)], sentences = [],
            current_sent = 0 \<rparr>"
      by (simp add: st0_def fs)
    then show ?thesis using cnt[unfolded doc] False
      by (simp add: sentence_wise_bilou_lines_def bt[unfolded doc tags] fs
          push_sentence_def Let_def doc)
  qed
  have pl: "bilou_lines_for_entity biluo_tags_from_offsets doc annotations entity_type
              = Inr (first_sent @ tagged_lines (zip tags' rest))"
    using plain by (simp add: bilou_lines_for_entity_def bt)
  show ?thesis using sw pl plain by (simp add: tags_def)
qed

theorem single_sentence_without_boundaries_witness:
  "spacy_biluo_tags_from_offsets ai_doc (entities_of ai_annotations)
       = Inr [''U-Task'', ''O'', ''O'', ''O'']
   \<and> length [''U-Task'', ''O'', ''O'', ''O''] = length ai_doc
   \<and> filter is_sent_start (tl ai_doc) = []
   \<and> sentence_wise_bilou_lines spacy_biluo_tags_from_offsets ai_doc ai_annotations ''Task''
       = Inr [[''AI U-Task U-Task U-Task'', ''is O-Task O-Task O-Task'',
               ''useful O-Task O-Task O-Task'', ''. O-Task O-Task O-Task'']]"
proof -
  have h1: "ai_doc \<noteq> []" by (simp add: ai_doc_def)
  have h2: "\<forall>token \<in> set (tl ai_doc). \<not> is_sent_start token" by code_simp
  have h4: "length [''U-Task'', ''O'', ''O'', ''O''] = length ai_doc" by (simp add: ai_doc_def)
  from single_sentence_without_boundaries
         [where biluo_tags_from_offsets = spacy_biluo_tags_from_offsets and doc = ai_doc
            and annotations = ai_annotations and entity_type = "''Task''"
            and raw = "[''U-Task'', ''O'', ''O'', ''O'']", OF h1 h2 ai_raw h4]
  obtain lines where
    "sentence_wise_bilou_lines spacy_biluo_tags_from_offsets ai_doc ai_annotations ''Task''
       = Inr [lines]"
    "bilou_lines_for_entity spacy_biluo_tags_from_offsets ai_doc ai_annotations ''Task''
       = Inr lines"
    by blast
  then have "sentence_wise_bilou_lines spacy_biluo_tags_from_offsets ai_doc ai_annotations ''Task''
       = Inr [[''AI U-Task U-Task U-Task'', ''is O-Task O-Task O-Task'',
               ''useful O-Task O-Task O-Task'', ''. O-Task O-Task O-Task'']]"
    by (simp add: ai_lines)
  moreover have "filter is_sent_start (tl ai_doc) = []" by code_simp
  ultimately show ?thesis using ai_raw h4 by blast
qed

text \<open>
  The plain mode: with one library tag per token, there is one converted tag per token
  and the emitted lines are those of exactly the non-whitespace tokens, in their order.
  The sentence-wise mode raises IndexError on a document without tokens.
\<close>

lemma filter_zip_fst:
  "length tags = length doc \<Longrightarrow>
     map fst (filter (\<lambda>(token, tag). P token) (zip doc tags)) = filter P doc"
  by (induction doc tags rule: list_induct2') auto

lemma plain_mode_lines:
  assumes "biluo_tags_from_offsets doc (entities_of annotations) = Inr raw"
    and "length raw = length doc"
  shows "\<exists>tags. bilou_tags biluo_tags_from_offsets doc annotations entity = Inr tags
           \<and> length tags = length doc
           \<and> bilou_lines_for_entity biluo_tags_from_offsets doc annotations entity
               = Inr (map (\<lambda>(token, tag). bilou_line token tag)
                        (filter (\<lambda>(token, tag). \<not> is_space token) (zip doc tags)))
           \<and> map fst (filter (\<lambda>(token, tag). \<not> is_space token) (zip doc tags))
               = filter (\<lambda>token. \<not> is_space token) doc"
  using assms filter_zip_fst[of "map (outside_tag entity) raw" doc "\<lambda>t. \<not> is_space t"]
  by (simp add: bilou_tags_def bilou_lines_for_entity_def)

lemma sentence_wise_empty_document:
  "biluo_tags_from_offsets [] (entities_of annotations) = Inr raw \<Longrightarrow>
     sentence_wise_bilou_lines biluo_tags_from_offsets [] annotations entity = Inl IndexError"
  by (simp add: sentence_wise_bilou_lines_def bilou_tags_def)

text \<open>
  C1 fails in sentence-wise mode. When a whitespace token starts a sentence, the loop
  appends \<^verbatim>\<open>current_sent\<close> to \<^verbatim>\<open>sentences\<close> and keeps appending to the same list
  object, which is appended once more at the end: for the document \<open>A . _ B\<close>, whose
  third token is a whitespace token that starts the second sentence, both sentences hold
  the lines of \<open>A\<close>, \<open>.\<close> and \<open>B\<close>, so every line is emitted twice. The plain mode emits
  each of them once.
\<close>

theorem sentence_wise_repeats_lines:
  "sentence_wise_bilou_lines spacy_biluo_tags_from_offsets two_sentence_doc [] ''Task''
     = Inr [[''A O-Task O-Task O-Task'', ''. O-Task O-Task O-Task'', ''B O-Task O-Task O-Task''],
            [''A O-Task O-Task O-Task'', ''. O-Task O-Task O-Task'', ''B O-Task O-Task O-Task'']]
   \<and> bilou_lines_for_entity spacy_biluo_tags_from_offsets two_sentence_doc [] ''Task''
     = Inr [''A O-Task O-Task O-Task'', ''. O-Task O-Task O-Task'', ''B O-Task O-Task O-Task'']"
  by code_simp

section \<open>Theorems: the stratified split\<close>

lemma bind_error_Inr:
  "bind_error m f = Inr y \<longleftrightarrow> (\<exists>x. m = Inr x \<and> f x = Inr y)"
  by (cases m) (auto simp: bind_error_def)

lemma select_Inr:
  "select xs indices = Inr ys \<Longrightarrow> ys = map ((!) xs) indices \<and> (\<forall>i \<in> set indices. i < length xs)"
  by (induction indices arbitrary: ys) (auto simp: bind_error_Inr split: if_splits)

lemma class_indices_length:
  "class_indices classname2idx labels = Inr y \<Longrightarrow> length y = length labels"
  by (induction labels arbitrary: y) (auto simp: bind_error_Inr split: option.splits)

lemma split_and_select_Inr:
  assumes "split_and_select lib test_sz train_sz lines labels classname2idx features
             = Inr ((first_lines, first_labels), (second_lines, second_labels))"
  shows "\<exists>y first second.
           length y = length labels
           \<and> stratified_shuffle_split lib test_sz train_sz 1729 features y = Inr (first, second)
           \<and> first_lines = map ((!) lines) first \<and> first_labels = map ((!) labels) first
           \<and> second_lines = map ((!) lines) second \<and> second_labels = map ((!) labels) second"
proof -
  from assms obtain y first second fl fb sl sb where
    "class_indices classname2idx labels = Inr y"
    "stratified_shuffle_split lib test_sz train_sz 1729 features y = Inr (first, second)"
    "select lines first = Inr fl" "select labels first = Inr fb"
    "select lines second = Inr sl" "select labels second = Inr sb"
    "fl = first_lines" "fb = first_labels" "sl = second_lines" "sb = second_labels"
    by (auto simp: split_and_select_def bind_error_Inr)
  then show ?thesis
    using select_Inr[of lines first fl] select_Inr[of labels first fb]
      select_Inr[of lines second sl] select_Inr[of labels second sb]
      class_indices_length[of classname2idx labels y]
    by auto
qed

lemma map_nth_compose:
  assumes "\<forall>i \<in> set is. i < length tv"
  shows "map ((!) (map ((!) xs) tv)) is = map ((!) xs) (map ((!) tv) is)"
  using assms by (induction "is") auto

lemma distinct_map_nth:
  assumes "distinct tv" "distinct is" "\<forall>i \<in> set is. i < length tv"
  shows "distinct (map ((!) tv) is)"
proof -
  have "inj_on ((!) tv) (set is)"
    using assms by (auto simp: inj_on_def nth_eq_iff_index_eq)
  then show ?thesis using assms(2) by (simp add: distinct_map)
qed

lemma example_library_disjoint: "indices_disjoint example_library"
  by (auto simp: indices_disjoint_def example_library_def Let_def split: if_splits)

lemma example_library_features_ignored: "features_ignored example_library"
  by (simp add: features_ignored_def example_library_def)

lemma example_library_rand_length: "rand_length example_library"
  by (simp add: rand_length_def example_library_def)

lemma example_run:
  "fst (get_train_valid_test_stratified_split example_library (example_dataset 80 20 50)
          example_lines example_labels example_classname2idx 7)
     = Inr (([''a'', ''b'', ''c'', ''d'', ''e'', ''f'', ''g'', ''h''],
             [''x'', ''y'', ''x'', ''y'', ''x'', ''y'', ''x'', ''y'']),
            ([''j''], [''y'']), ([''i''], [''x'']))"
  by code_simp

lemma complementary_counts:
  fixes m n :: nat
  assumes "m \<le> 100 * n"
  shows "(100 * n - m) div 100 + (m + 99) div 100 = n"
proof -
  define k where "k = 100 * n - m"
  define a where "a = k div 100"
  define b where "b = k mod 100"
  have k: "k = 100 * a + b" and b: "b < 100" by (simp_all add: a_def b_def)
  have kn: "k \<le> 100 * n" by (simp add: k_def)
  have m: "m + k = 100 * n" using assms by (simp add: k_def)
  from kn k have an: "a \<le> n" by linarith
  then obtain c where c: "n = a + c" using le_Suc_ex by blast
  from m k c have "m + 99 = (99 - b) + c * 100" using b by simp
  then have "(m + 99) div 100 = c" using b by simp
  then show ?thesis using c by (simp add: a_def k_def)
qed

lemma example_library_uses_every_sample:
  "uses_every_sample example_library test_sz (100 - test_sz) n"
proof -
  have "\<And>y first second seed X.
          length y = n \<Longrightarrow>
          stratified_shuffle_split example_library test_sz (100 - test_sz) seed X y
            = Inr (first, second) \<Longrightarrow>
          {0 ..< n} \<subseteq> set (first @ second)"
  proof -
    fix y :: "nat list" and first second :: "nat list" and seed :: nat and X :: "nat list"
    assume len: "length y = n"
      and sp: "stratified_shuffle_split example_library test_sz (100 - test_sz) seed X y
                 = Inr (first, second)"
    let ?n_train = "((100 - test_sz) * n) div 100"
    let ?n_test = "(test_sz * n + 99) div 100"
    from sp len have ok: "?n_train \<noteq> 0" and
      fs: "first = [0 ..< ?n_train]" "second = [?n_train ..< ?n_train + ?n_test]"
      by (auto simp: example_library_def Let_def split: if_splits)
    from ok have "test_sz \<le> 100" by (cases "test_sz \<le> 100") auto
    then have "(100 - test_sz) * n = 100 * n - test_sz * n" "test_sz * n \<le> 100 * n"
      by (simp_all add: diff_mult_distrib)
    then have "?n_train + ?n_test = n"
      using complementary_counts[of "test_sz * n" n] by simp
    then show "{0 ..< n} \<subseteq> set (first @ second)"
      unfolding fs by auto
  qed
  then show ?thesis unfolding uses_every_sample_def by blast
qed

lemma distinct_covering_iff:
  assumes "distinct xs" "set xs \<subseteq> {0 ..< n}"
  shows "set xs = {0 ..< n} \<longleftrightarrow> length xs = n"
proof
  assume "set xs = {0 ..< n}"
  then have "card (set xs) = n" by simp
  with assms(1) show "length xs = n" by (simp add: distinct_card)
next
  assume "length xs = n"
  with assms(1) have "card (set xs) = card {0 ..< n}" by (simp add: distinct_card)
  with assms(2) show "set xs = {0 ..< n}" by (intro card_subset_eq) auto
qed

lemma example_run_partial:
  "fst (get_train_valid_test_stratified_split example_library (example_dataset 50 20 50)
          example_lines example_labels example_classname2idx 7)
     = Inr (([''a'', ''b'', ''c'', ''d'', ''e''], [''x'', ''y'', ''x'', ''y'', ''x'']),
            ([''g''], [''x'']), ([''f''], [''y'']))"
  by code_simp




lemma split_and_select_features:
  assumes "features_ignored lib" "length X = length X'"
  shows "split_and_select lib test_sz train_sz lines labels classname2idx X
           = split_and_select lib test_sz train_sz lines labels classname2idx X'"
proof -
  have "\<And>y. stratified_shuffle_split lib test_sz train_sz 1729 X y
            = stratified_shuffle_split lib test_sz train_sz 1729 X' y"
    using assms unfolding features_ignored_def by blast
  then show ?thesis by (simp add: split_and_select_def)
qed

text \<open>
  C7. The result does not depend on the state of NumPy's global generator: two runs on
  the same object, lines, labels and class mapping return the same result (the same
  partition, or the same exception) from any two generator states, in particular from
  the state the first run left behind. The random features reach the library only as
  samples \<open>X\<close>, of which it uses the number, and both splitters are built with
  \<^verbatim>\<open>random_state=1729\<close>.
\<close>

theorem split_deterministic:
  assumes fi: "features_ignored lib" and rl: "rand_length lib"
  shows "fst (get_train_valid_test_stratified_split lib self lines labels classname2idx g)
           = fst (get_train_valid_test_stratified_split lib self lines labels classname2idx g')"
proof (cases "length lines = length labels")
  case False
  then show ?thesis by (simp add: get_train_valid_test_stratified_split_def)
next
  case True
  obtain X g1 where r: "random_rand lib (length lines) g = (X, g1)"
    by (cases "random_rand lib (length lines) g")
  obtain X' g1' where r': "random_rand lib (length lines) g' = (X', g1')"
    by (cases "random_rand lib (length lines) g'")
  from rl r r' have "length X = length X'"
    unfolding rand_length_def by (metis fst_conv)
  note s1 = split_and_select_features[OF fi this]
  show ?thesis
  proof (cases "split_and_select lib (test_size self) (train_size self) lines labels
                  classname2idx X")
    case (Inl e)
    then show ?thesis using True r r' s1
      by (simp add: get_train_valid_test_stratified_split_def)
  next
    case (Inr res)
    obtain train_lines train_labels tv_lines tv_labels where
      res: "res = ((train_lines, train_labels), (tv_lines, tv_labels))"
      by (cases res) auto
    obtain Y g2 where q: "random_rand lib (length tv_lines) g1 = (Y, g2)"
      by (cases "random_rand lib (length tv_lines) g1")
    obtain Y' g2' where q': "random_rand lib (length tv_lines) g1' = (Y', g2')"
      by (cases "random_rand lib (length tv_lines) g1'")
    from rl q q' have "length Y = length Y'"
      unfolding rand_length_def by (metis fst_conv)
    note s2 = split_and_select_features[OF fi this]
    show ?thesis using True r r' s1 Inr res q q' s2
      by (simp add: get_train_valid_test_stratified_split_def split: sum.splits prod.splits)
  qed
qed

theorem split_deterministic_witness:
  "features_ignored example_library
   \<and> rand_length example_library
   \<and> fst (get_train_valid_test_stratified_split example_library (example_dataset 80 20 50)
          example_lines example_labels example_classname2idx 7)
     = fst (get_train_valid_test_stratified_split example_library (example_dataset 80 20 50)
          example_lines example_labels example_classname2idx 19)"
  using example_library_features_ignored example_library_rand_length
    split_deterministic [OF example_library_features_ignored example_library_rand_length]
  by blast

section \<open>Theorems: from BILOU lines back to the annotations\<close>

lemma in_order_nth:
  assumes "doc_in_order doc" "i < j" "j < length doc"
  shows "token_end (doc ! i) \<le> tok_idx (doc ! j)"
  using assms by (auto simp: doc_in_order_def sorted_wrt_iff_nth_less)

lemma in_order_nonempty:
  assumes "doc_in_order doc" "i < length doc"
  shows "tok_idx (doc ! i) < token_end (doc ! i)"
  using assms by (auto simp: doc_in_order_def list_all_length clean_def token_end_def)

lemma idx_mono:
  assumes "doc_in_order doc" "i < j" "j < length doc"
  shows "tok_idx (doc ! i) < tok_idx (doc ! j)"
  using in_order_nth[OF assms] in_order_nonempty[OF assms(1), of i] assms by simp

lemma end_mono:
  assumes "doc_in_order doc" "i < j" "j < length doc"
  shows "token_end (doc ! i) < token_end (doc ! j)"
  using in_order_nth[OF assms] in_order_nonempty[OF assms(1), of j] assms by simp

lemma distinct_idx: "doc_in_order doc \<Longrightarrow> distinct (map tok_idx doc)"
  unfolding distinct_conv_nth
  by (auto simp: nat_neq_iff dest: idx_mono)

lemma distinct_end: "doc_in_order doc \<Longrightarrow> distinct (map token_end doc)"
  unfolding distinct_conv_nth
  by (auto simp: nat_neq_iff dest: end_mono)

lemma map_key_enumerate:
  "map fst (map (\<lambda>(i, token). (f token, i)) (enumerate n xs)) = map f xs"
  by (induction xs arbitrary: n) auto

lemma lookup_distinct_keys:
  assumes "distinct (map f doc)"
  shows "map_of (rev (map (\<lambda>(i, token). (f token, i)) (enumerate 0 doc))) c = Some a
           \<longleftrightarrow> (a < length doc \<and> f (doc ! a) = c)"
proof -
  let ?xs = "rev (map (\<lambda>(i, token). (f token, i)) (enumerate 0 doc))"
  have "map fst ?xs = rev (map f doc)"
    by (simp only: rev_map[symmetric] map_key_enumerate)
  then have "distinct (map fst ?xs)" using assms by simp
  then have "map_of ?xs c = Some a \<longleftrightarrow> (c, a) \<in> set ?xs"
    by (metis map_of_SomeD map_of_is_SomeI)
  also have "\<dots> \<longleftrightarrow> (a < length doc \<and> f (doc ! a) = c)"
    by (auto simp: in_set_enumerate_eq)
  finally show ?thesis .
qed

lemma starts_Some:
  assumes "doc_in_order doc"
  shows "starts doc c = Some a \<longleftrightarrow> (a < length doc \<and> int (tok_idx (doc ! a)) = c)"
proof -
  have "distinct (map (\<lambda>t. int (tok_idx t)) doc)"
    using distinct_idx[OF assms] by (simp add: distinct_map inj_on_def flip: map_map)
  from lookup_distinct_keys[OF this] show ?thesis by (simp add: starts_def)
qed

lemma ends_Some:
  assumes "doc_in_order doc"
  shows "ends doc c = Some b \<longleftrightarrow> (b < length doc \<and> int (token_end (doc ! b)) = c)"
proof -
  have "distinct (map (\<lambda>t. int (token_end t)) doc)"
    using distinct_end[OF assms] by (simp add: distinct_map inj_on_def flip: map_map)
  from lookup_distinct_keys[OF this] show ?thesis by (simp add: ends_def token_end_def)
qed

lemma length_foldl_update [simp]:
  "length (foldl (\<lambda>b i. b[i := x]) b is) = length b"
  by (induction "is" arbitrary: b) auto

lemma nth_update_any:
  "xs[i := x] ! j = (if i = j \<and> i < length xs then x else xs ! j)"
  by (cases "i < length xs") (auto simp: nth_list_update list_update_beyond)

lemma foldl_update_nth:
  "t < length b \<Longrightarrow>
     (foldl (\<lambda>b i. b[i := x]) b [lo ..< hi]) ! t = (if lo \<le> t \<and> t < hi then x else b ! t)"
proof (induction hi)
  case 0
  then show ?case by simp
next
  case (Suc hi)
  show ?case
  proof (cases "lo \<le> hi")
    case True
    then have "[lo ..< Suc hi] = [lo ..< hi] @ [hi]" by simp
    then show ?thesis using Suc by (auto simp: nth_update_any)
  next
    case False
    then show ?thesis by auto
  qed
qed

lemma aligned_span:
  assumes "doc_in_order doc" "aligned doc (s, e, l)"
  obtains a b where "starts doc s = Some a" "ends doc e = Some b" "a \<le> b" "b < length doc"
    "int (tok_idx (doc ! a)) = s" "int (token_end (doc ! b)) = e"
    "token_span_of doc (s, e, l) = (a, b, l)"
proof -
  from assms(2) obtain a b where ab: "starts doc s = Some a" "ends doc e = Some b" "a \<le> b"
    by (auto simp: aligned_def split: option.splits)
  from ab(1) have "a < length doc" "int (tok_idx (doc ! a)) = s"
    using starts_Some[OF assms(1)] by auto
  moreover from ab(2) have "b < length doc" "int (token_end (doc ! b)) = e"
    using ends_Some[OF assms(1)] by auto
  ultimately show ?thesis using ab that by (simp add: token_span_of_def)
qed

lemma mark_entity_nth:
  assumes "doc_in_order doc" "aligned doc ent" "length biluo = length doc" "t < length doc"
  shows "mark_entity doc biluo ent ! t =
           (if covers (token_span_of doc ent) t then span_tag (token_span_of doc ent) t
            else biluo ! t)"
proof -
  obtain s e l where ent: "ent = (s, e, l)" by (cases ent)
  from aligned_span[OF assms(1) assms(2)[unfolded ent]] obtain a b where
    ab: "starts doc s = Some a" "ends doc e = Some b" "a \<le> b" "b < length doc"
    "token_span_of doc (s, e, l) = (a, b, l)"
    by metis
  show ?thesis
  proof (cases "a = b")
    case True
    then show ?thesis using ab assms(3,4)
      by (auto simp: mark_entity_def ent ab covers_def span_tag_def nth_list_update)
  next
    case False
    with ab have lt: "a < b" by simp
    have "mark_entity doc biluo ent =
            (foldl (\<lambda>b i. b[i := ''I-'' @ l]) (biluo[a := ''B-'' @ l]) [Suc a ..< b])[b := ''L-'' @ l]"
      using False by (simp add: mark_entity_def ent ab)
    then show ?thesis using ab lt assms(3,4)
      by (auto simp: ent covers_def span_tag_def nth_list_update foldl_update_nth)
  qed
qed

lemma spans_ok_Cons:
  "spans_ok n (sp # sps) \<Longrightarrow> spans_ok n sps"
  by (auto simp: spans_ok_def)

lemma spans_ok_disjoint:
  assumes "spans_ok n (sp # sps)" "covers sp t"
  shows "find (\<lambda>sp. covers sp t) sps = None"
  using assms by (force simp: spans_ok_def covers_def find_None_iff)

lemma foldl_mark_nth:
  assumes "doc_in_order doc" "list_all (aligned doc) ents"
    "spans_ok (length doc) (map (token_span_of doc) ents)"
    "length biluo = length doc" "t < length doc"
  shows "foldl (mark_entity doc) biluo ents ! t =
           (case find (\<lambda>sp. covers sp t) (map (token_span_of doc) ents) of
              None \<Rightarrow> biluo ! t
            | Some sp \<Rightarrow> span_tag sp t)"
  using assms(2-4)
proof (induction ents arbitrary: biluo)
  case Nil
  then show ?case by simp
next
  case (Cons ent ents)
  let ?b = "mark_entity doc biluo ent"
  have IH: "foldl (mark_entity doc) ?b ents ! t =
           (case find (\<lambda>sp. covers sp t) (map (token_span_of doc) ents) of
              None \<Rightarrow> ?b ! t
            | Some sp \<Rightarrow> span_tag sp t)"
    using Cons.prems by (intro Cons.IH) (auto dest: spans_ok_Cons)
  have m: "?b ! t = (if covers (token_span_of doc ent) t then span_tag (token_span_of doc ent) t
            else biluo ! t)"
    using Cons.prems assms(1,5) by (intro mark_entity_nth) auto
  show ?case
  proof (cases "covers (token_span_of doc ent) t")
    case True
    with Cons.prems(2) have "find (\<lambda>sp. covers sp t) (map (token_span_of doc) ents) = None"
      by (intro spans_ok_disjoint[of _ "token_span_of doc ent"]) auto
    then show ?thesis using IH m True by simp
  next
    case False
    then show ?thesis using IH m by (simp split: option.splits)
  qed
qed

lemma tiles_spans_ok:
  assumes "doc_in_order doc" "tiles doc ents"
  shows "spans_ok (length doc) (map (token_span_of doc) ents)"
proof -
  from assms(2) have al: "\<forall>ent \<in> set ents. aligned doc ent"
    and so: "sorted_wrt (\<lambda>(s, e, l) (s', e', l'). e \<le> s') ents"
    by (auto simp: tiles_def list_all_iff)
  have bounds: "list_all (\<lambda>(a, b, l). a \<le> b \<and> b < length doc) (map (token_span_of doc) ents)"
  proof -
    have "\<And>ent. ent \<in> set ents \<Longrightarrow>
             (case token_span_of doc ent of (a, b, l) \<Rightarrow> a \<le> b \<and> b < length doc)"
    proof -
      fix ent assume "ent \<in> set ents"
      then have a: "aligned doc ent" using al by simp
      obtain s e l where ent: "ent = (s, e, l)" by (cases ent)
      from aligned_span[OF assms(1) a[unfolded ent]]
      show "case token_span_of doc ent of (a, b, l) \<Rightarrow> a \<le> b \<and> b < length doc"
        unfolding ent by (metis (mono_tags, lifting) case_prod_conv)
    qed
    then show ?thesis by (simp add: list_all_iff)
  qed
  have "sorted_wrt (\<lambda>x y. (case token_span_of doc x of (a, b, l) \<Rightarrow>
                              \<lambda>(a', b', l'). b < a') (token_span_of doc y)) ents"
  proof (rule sorted_wrt_mono_rel[OF _ so])
    fix x y assume xy: "x \<in> set ents" "y \<in> set ents"
      and le: "(case x of (s, e, l) \<Rightarrow> \<lambda>(s', e', l'). e \<le> s') y"
    obtain s e l where x: "x = (s, e, l)" by (cases x)
    obtain s' e' l' where y: "y = (s', e', l')" by (cases y)
    from le have le': "e \<le> s'" by (simp add: x y)
    from aligned_span[OF assms(1), of s e l] xy(1) al obtain a b where
      ab: "b < length doc" "int (token_end (doc ! b)) = e" "token_span_of doc (s, e, l) = (a, b, l)"
      unfolding x by metis
    from aligned_span[OF assms(1), of s' e' l'] xy(2) al obtain a' b' where
      ab': "a' \<le> b'" "b' < length doc" "int (tok_idx (doc ! a')) = s'"
        "token_span_of doc (s', e', l') = (a', b', l')"
      unfolding y by metis
    have "b < a'"
    proof (rule ccontr)
      assume "\<not> b < a'"
      then consider "a' = b" | "a' < b" by linarith
      then show False
      proof cases
        case 1
        then show ?thesis
          using in_order_nonempty[OF assms(1) ab(1)] le' ab(2) ab'(3) by simp
      next
        case 2
        then show ?thesis
          using idx_mono[OF assms(1) 2 ab(1)] in_order_nonempty[OF assms(1) ab(1)]
            le' ab(2) ab'(3) by simp
      qed
    qed
    then show "(case token_span_of doc x of (a, b, l) \<Rightarrow> \<lambda>(a', b', l'). b < a')
                 (token_span_of doc y)"
      by (simp add: x y ab ab')
  qed
  then have "sorted_wrt (\<lambda>(a, b, l) (a', b', l'). b < a') (map (token_span_of doc) ents)"
    by (simp add: sorted_wrt_map)
  with bounds show ?thesis by (simp add: spans_ok_def)
qed

lemma entity_chars_covers:
  assumes "doc_in_order doc" "aligned doc (s, e, l)" "t < length doc"
  shows "(\<exists>i \<in> set (token_chars (doc ! t)). s \<le> i \<and> i < e)
           \<longleftrightarrow> covers (token_span_of doc (s, e, l)) t"
proof -
  from aligned_span[OF assms(1,2)] obtain a b where
    ab: "a \<le> b" "b < length doc" "int (tok_idx (doc ! a)) = s" "int (token_end (doc ! b)) = e"
      "token_span_of doc (s, e, l) = (a, b, l)"
    by metis
  have chars: "set (token_chars (doc ! t)) = int ` {tok_idx (doc ! t) ..< token_end (doc ! t)}"
    by (simp add: token_chars_def token_end_def)
  show ?thesis
  proof
    assume "\<exists>i \<in> set (token_chars (doc ! t)). s \<le> i \<and> i < e"
    then obtain i where i: "tok_idx (doc ! t) \<le> i" "i < token_end (doc ! t)"
      "tok_idx (doc ! a) \<le> i" "i < token_end (doc ! b)"
      using ab(3,4) unfolding chars by auto
    have "a \<le> t"
    proof (rule ccontr)
      assume "\<not> a \<le> t"
      then have "t < a" by simp
      from in_order_nth[OF assms(1) this] ab(1,2) i show False by simp
    qed
    moreover have "t \<le> b"
    proof (rule ccontr)
      assume "\<not> t \<le> b"
      then have "b < t" by simp
      from in_order_nth[OF assms(1) this assms(3)] i show False by simp
    qed
    ultimately show "covers (token_span_of doc (s, e, l)) t" by (simp add: ab covers_def)
  next
    assume "covers (token_span_of doc (s, e, l)) t"
    then have at: "a \<le> t" "t \<le> b" by (simp_all add: ab covers_def)
    have 1: "tok_idx (doc ! a) \<le> tok_idx (doc ! t)"
      using idx_mono[OF assms(1), of a t] at assms(3) by (cases "a = t") auto
    have 2: "token_end (doc ! t) \<le> token_end (doc ! b)"
      using end_mono[OF assms(1), of t b] at ab(2) by (cases "t = b") auto
    have 3: "tok_idx (doc ! t) < token_end (doc ! t)"
      using in_order_nonempty[OF assms(1,3)] .
    have "int (tok_idx (doc ! t)) \<in> set (token_chars (doc ! t))"
      unfolding chars using 3 by auto
    moreover have "s \<le> int (tok_idx (doc ! t))" "int (tok_idx (doc ! t)) < e"
      using 1 2 3 ab(3,4) by auto
    ultimately show "\<exists>i \<in> set (token_chars (doc ! t)). s \<le> i \<and> i < e" by blast
  qed
qed

lemma overlaps_covers:
  assumes "doc_in_order doc" "list_all (aligned doc) ents" "t < length doc"
  shows "overlaps ents (doc ! t)
           \<longleftrightarrow> find (\<lambda>sp. covers sp t) (map (token_span_of doc) ents) \<noteq> None"
proof -
  have "overlaps ents (doc ! t)
          \<longleftrightarrow> (\<exists>ent \<in> set ents. \<exists>i \<in> set (token_chars (doc ! t)).
                   (case ent of (s, e, l) \<Rightarrow> s \<le> i \<and> i < e))"
    by (auto simp: overlaps_def in_entity_def list_ex_iff)
  also have "\<dots> \<longleftrightarrow> (\<exists>ent \<in> set ents. covers (token_span_of doc ent) t)"
  proof (rule bex_cong[OF refl])
    fix ent assume "ent \<in> set ents"
    then have a: "aligned doc ent" using assms(2) by (simp add: list_all_iff)
    obtain s e l where ent: "ent = (s, e, l)" by (cases ent)
    show "(\<exists>i \<in> set (token_chars (doc ! t)). (case ent of (s, e, l) \<Rightarrow> s \<le> i \<and> i < e))
            \<longleftrightarrow> covers (token_span_of doc ent) t"
      using entity_chars_covers[OF assms(1) a[unfolded ent] assms(3)] by (simp add: ent)
  qed
  also have "\<dots> \<longleftrightarrow> find (\<lambda>sp. covers sp t) (map (token_span_of doc) ents) \<noteq> None"
    by (auto simp: find_None_iff)
  finally show ?thesis .
qed

lemma raw_nth:
  assumes "doc_in_order doc" "tiles doc ents" "t < length doc"
    "spacy_biluo_tags_from_offsets doc ents = Inr raw"
  shows "raw ! t = tag_at (map (token_span_of doc) ents) t"
proof -
  from assms(2) have al: "list_all (aligned doc) ents" by (simp add: tiles_def)
  let ?b = "foldl (mark_entity doc) (replicate (length doc) ''-'') ents"
  have f: "?b ! t = (case find (\<lambda>sp. covers sp t) (map (token_span_of doc) ents) of
              None \<Rightarrow> replicate (length doc) ''-'' ! t
            | Some sp \<Rightarrow> span_tag sp t)"
    using assms(1,3) al tiles_spans_ok[OF assms(1,2)]
    by (intro foldl_mark_nth) auto
  from assms(4) have "raw ! t = (if overlaps ents (doc ! t) then ?b ! t else ''O'')"
    using assms(3) by (auto simp: spacy_biluo_tags_from_offsets_def Let_def)
  then show ?thesis
    using overlaps_covers[OF assms(1) al assms(3)] f
    by (auto simp: tag_at_def split: option.splits)
qed

lemma tag_at_Nil [simp]: "tag_at [] t = ''O''"
  by (simp add: tag_at_def)

lemma tag_at_Cons:
  "tag_at ((a, b, l) # es) t = (if a \<le> t \<and> t \<le> b then span_tag (a, b, l) t else tag_at es t)"
  by (simp add: tag_at_def covers_def)

lemma tag_at_before:
  assumes "list_all (\<lambda>(a, b, l). t < a) es"
  shows "tag_at es t = ''O''"
  using assms by (induction es) (auto simp: tag_at_Cons)

lemma spans_ok_head:
  assumes "spans_ok n ((a, b, l) # es)"
  shows "a \<le> b" "b < n" "list_all (\<lambda>(a', b', l'). b < a') es" "spans_ok n es"
  using assms by (auto simp: spans_ok_def list_all_iff)

lemma map_span_tag:
  assumes "a \<le> b"
  shows "map (span_tag (a, b, l)) [a ..< Suc b] = span_block (a, b, l)"
proof (cases "a = b")
  case True
  then show ?thesis by (simp add: span_block_def span_tag_def)
next
  case False
  with assms have lt: "a < b" by simp
  then have segs: "[a ..< Suc b] = a # [Suc a ..< b] @ [b]"
    by (simp add: upt_conv_Cons)
  have mid: "map (span_tag (a, b, l)) [Suc a ..< b] = replicate (b - a - 1) (''I-'' @ l)"
  proof -
    have "map (span_tag (a, b, l)) [Suc a ..< b] = map (\<lambda>t. ''I-'' @ l) [Suc a ..< b]"
      by (rule map_cong) (auto simp: span_tag_def)
    then show ?thesis by (simp add: map_replicate_const)
  qed
  show ?thesis
    unfolding segs using lt mid by (simp add: span_block_def span_tag_def)
qed

lemma tags_segments:
  assumes "spans_ok n ((a, b, l) # es)" "p \<le> a"
  shows "map (tag_at ((a, b, l) # es)) [p ..< n]
           = replicate (a - p) ''O'' @ span_block (a, b, l) @ map (tag_at es) [Suc b ..< n]"
proof -
  note h = spans_ok_head[OF assms(1)]
  have split: "[p ..< n] = [p ..< a] @ [a ..< Suc b] @ [Suc b ..< n]"
  proof -
    have "[p ..< n] = [p ..< a] @ [a ..< n]"
      using assms(2) h(1,2) by (metis le_add_diff_inverse less_imp_le_nat le_trans upt_add_eq_append)
    moreover have "[a ..< n] = [a ..< Suc b] @ [Suc b ..< n]"
      using h(1,2) by (metis Suc_leI le_Suc_eq le_add_diff_inverse upt_add_eq_append)
    ultimately show ?thesis by simp
  qed
  have before: "map (tag_at ((a, b, l) # es)) [p ..< a] = replicate (a - p) ''O''"
  proof -
    have "map (tag_at ((a, b, l) # es)) [p ..< a] = map (\<lambda>t. ''O'') [p ..< a]"
    proof (rule map_cong[OF refl])
      fix t assume "t \<in> set [p ..< a]"
      then have t: "t < a" by simp
      have "list_all (\<lambda>(a', b', l'). t < a') es"
        using h(3) h(1) t by (auto simp: list_all_iff)
      from tag_at_before[OF this] t show "tag_at ((a, b, l) # es) t = ''O''"
        by (simp add: tag_at_Cons)
    qed
    then show ?thesis by (simp add: map_replicate_const)
  qed
  have inside: "map (tag_at ((a, b, l) # es)) [a ..< Suc b] = span_block (a, b, l)"
  proof -
    have "map (tag_at ((a, b, l) # es)) [a ..< Suc b] = map (span_tag (a, b, l)) [a ..< Suc b]"
      by (rule map_cong) (auto simp: tag_at_Cons)
    then show ?thesis by (simp only: map_span_tag[OF h(1)])
  qed
  have after: "map (tag_at ((a, b, l) # es)) [Suc b ..< n] = map (tag_at es) [Suc b ..< n]"
    by (rule map_cong) (auto simp: tag_at_Cons)
  show ?thesis
    unfolding split map_append before inside after ..
qed

lemma outside_tag_O [simp]: "outside_tag entity ''O'' = ''O-'' @ entity"
  by (simp add: outside_tag_def startswith_def)

lemma outside_tag_Cons [simp]:
  "c \<noteq> CHR ''O'' \<Longrightarrow> outside_tag entity (c # d # l) = c # d # l"
  by (simp add: outside_tag_def startswith_def)

lemma outside_tag_block [simp]:
  "outside_tag entity (''U-'' @ l) = ''U-'' @ l"
  "outside_tag entity (''B-'' @ l) = ''B-'' @ l"
  "outside_tag entity (''I-'' @ l) = ''I-'' @ l"
  "outside_tag entity (''L-'' @ l) = ''L-'' @ l"
  by (simp_all add: outside_tag_def startswith_def)

lemma decode_O_run:
  "tags_to_entities_from p None (replicate k (''O-'' @ entity) @ rest)
     = tags_to_entities_from (p + k) None rest"
  by (induction k arbitrary: p) (simp_all add: startswith_def)

lemma decode_I_run:
  "tags_to_entities_from p (Some a) (replicate k (''I-'' @ l) @ rest)
     = tags_to_entities_from (p + k) (Some a) rest"
  by (induction k arbitrary: p) (simp_all add: startswith_def)

lemma decode_U:
  "tags_to_entities_from p None ((''U-'' @ l) # rest)
     = bind_error (tags_to_entities_from (Suc p) None rest)
         (\<lambda>entities. Inr ((l, Some p, p) # entities))"
  by (simp add: startswith_def)

lemma decode_B:
  "tags_to_entities_from p None ((''B-'' @ l) # rest)
     = tags_to_entities_from (Suc p) (Some p) rest"
  by (simp add: startswith_def)

lemma decode_L:
  "tags_to_entities_from p (Some a) ((''L-'' @ l) # rest)
     = bind_error (tags_to_entities_from (Suc p) None rest)
         (\<lambda>entities. Inr ((l, Some a, p) # entities))"
  by (simp add: startswith_def)

lemma decode_block:
  assumes "a \<le> b"
  shows "tags_to_entities_from a None (map (outside_tag entity) (span_block (a, b, l)) @ rest)
           = bind_error (tags_to_entities_from (Suc b) None rest)
               (\<lambda>entities. Inr ((l, Some a, b) # entities))"
proof (cases "a = b")
  case True
  have "map (outside_tag entity) (span_block (a, b, l)) @ rest = (''U-'' @ l) # rest"
    using True by (simp add: span_block_def)
  then show ?thesis unfolding True[symmetric] by (simp only: decode_U)
next
  case False
  with assms have lt: "a < b" by simp
  have "map (outside_tag entity) (span_block (a, b, l)) @ rest
          = (''B-'' @ l) # (replicate (b - a - 1) (''I-'' @ l) @ (''L-'' @ l) # rest)"
    using False by (simp add: span_block_def)
  then have "tags_to_entities_from a None (map (outside_tag entity) (span_block (a, b, l)) @ rest)
          = tags_to_entities_from (Suc a + (b - a - 1)) (Some a) ((''L-'' @ l) # rest)"
    by (simp only: decode_B decode_I_run)
  also have "Suc a + (b - a - 1) = b" using lt by simp
  finally show ?thesis by (simp only: decode_L)
qed

lemma decode_tags:
  assumes "spans_ok n es" "list_all (\<lambda>(a, b, l). p \<le> a) es"
  shows "tags_to_entities_from p None (map (outside_tag entity) (map (tag_at es) [p ..< n]))
           = Inr (map (\<lambda>(a, b, l). (l, Some a, b)) es)"
  using assms
proof (induction es arbitrary: p)
  case Nil
  have "map (outside_tag entity) (map (tag_at []) [p ..< n])
          = replicate (n - p) (''O-'' @ entity) @ []"
    by (simp add: map_replicate_const comp_def)
  then show ?case by (simp only: decode_O_run) simp
next
  case (Cons sp es)
  obtain a b l where sp: "sp = (a, b, l)" by (cases sp)
  from Cons.prems have ok: "spans_ok n ((a, b, l) # es)" and pa: "p \<le> a"
    by (simp_all add: sp)
  note h = spans_ok_head[OF ok]
  have next_ok: "list_all (\<lambda>(a', b', l'). Suc b \<le> a') es"
    using h(3) by (auto simp: list_all_iff)
  have IH: "tags_to_entities_from (Suc b) None
              (map (outside_tag entity) (map (tag_at es) [Suc b ..< n]))
            = Inr (map (\<lambda>(a, b, l). (l, Some a, b)) es)"
    using Cons.IH[OF h(4) next_ok] .
  have "map (outside_tag entity) (map (tag_at (sp # es)) [p ..< n])
          = replicate (a - p) (''O-'' @ entity)
            @ (map (outside_tag entity) (span_block (a, b, l))
               @ map (outside_tag entity) (map (tag_at es) [Suc b ..< n]))"
    unfolding sp tags_segments[OF ok pa] by (simp add: map_replicate)
  then have "tags_to_entities_from p None (map (outside_tag entity) (map (tag_at (sp # es)) [p ..< n]))
          = tags_to_entities_from (p + (a - p)) None
              (map (outside_tag entity) (span_block (a, b, l))
               @ map (outside_tag entity) (map (tag_at es) [Suc b ..< n]))"
    by (simp only: decode_O_run)
  also have "p + (a - p) = a" using pa by simp
  finally have "tags_to_entities_from p None
                  (map (outside_tag entity) (map (tag_at (sp # es)) [p ..< n]))
                = bind_error (Inr (map (\<lambda>(a, b, l). (l, Some a, b)) es))
                    (\<lambda>entities. Inr ((l, Some a, b) # entities))"
    by (simp only: decode_block[OF h(1)] IH)
  then show ?case by (simp add: bind_error_def sp)
qed

lemma raw_tags:
  assumes "doc_in_order doc" "tiles doc ents"
    "spacy_biluo_tags_from_offsets doc ents = Inr raw"
  shows "raw = map (tag_at (map (token_span_of doc) ents)) [0 ..< length doc]"
proof (rule nth_equalityI)
  show "length raw = length (map (tag_at (map (token_span_of doc) ents)) [0 ..< length doc])"
    using spacy_biluo_length[OF assms(3)] by simp
next
  fix t assume "t < length raw"
  then have t: "t < length doc" using spacy_biluo_length[OF assms(3)] by simp
  from raw_nth[OF assms(1,2) t assms(3)] t
  show "raw ! t = map (tag_at (map (token_span_of doc) ents)) [0 ..< length doc] ! t"
    by simp
qed

lemma span_offsets_aligned:
  assumes "doc_in_order doc" "aligned doc (s, e, l)"
  shows "span_offsets doc ((\<lambda>(a, b, l). (l, Some a, b)) (token_span_of doc (s, e, l)))
           = Inr (s, e, l)"
proof -
  from aligned_span[OF assms] obtain a b where
    ab: "a \<le> b" "b < length doc" "int (tok_idx (doc ! a)) = s" "int (token_end (doc ! b)) = e"
      "token_span_of doc (s, e, l) = (a, b, l)"
    by metis
  then show ?thesis by (simp add: span_offsets_def)
qed

lemma sequence_offsets:
  assumes "doc_in_order doc" "list_all (aligned doc) ents"
  shows "sequence_error (map (span_offsets doc)
           (map (\<lambda>(a, b, l). (l, Some a, b)) (map (token_span_of doc) ents))) = Inr ents"
  using assms(2)
proof (induction ents)
  case Nil
  then show ?case by simp
next
  case (Cons ent ents)
  obtain s e l where ent: "ent = (s, e, l)" by (cases ent)
  from Cons.prems have a: "aligned doc (s, e, l)" and rest: "list_all (aligned doc) ents"
    by (simp_all add: ent)
  show ?case
    using span_offsets_aligned[OF assms(1) a] Cons.IH[OF rest]
    by (simp add: ent bind_error_def)
qed

lemma offsets_round_trip:
  assumes "doc_in_order doc" "tiles doc ents"
    "spacy_biluo_tags_from_offsets doc ents = Inr raw"
  shows "spacy_offsets_from_biluo_tags doc (map (outside_tag entity) raw) = Inr ents"
proof -
  let ?sps = "map (token_span_of doc) ents"
  have ok: "spans_ok (length doc) ?sps" using tiles_spans_ok[OF assms(1,2)] .
  have lb: "list_all (\<lambda>(a, b, l). 0 \<le> a) ?sps" by (simp add: list_all_iff split: prod.splits)
  have "tags_to_entities (map (outside_tag entity) raw)
          = Inr (map (\<lambda>(a, b, l). (l, Some a, b)) ?sps)"
    unfolding tags_to_entities_def raw_tags[OF assms]
    using decode_tags[OF ok lb] .
  moreover from assms(2) have "list_all (aligned doc) ents" by (simp add: tiles_def)
  ultimately show ?thesis
    using sequence_offsets[OF assms(1)]
    by (simp add: spacy_offsets_from_biluo_tags_def bind_error_def)
qed

lemma split_ws_field:
  assumes "clean w" "isspace c"
  shows "split_ws (w @ c # rest) = w # split_ws rest"
proof -
  from assms(1) obtain x xs where w: "w = x # xs" and x: "\<not> isspace x"
    and xs: "\<forall>y \<in> set xs. \<not> isspace y"
    by (cases w) (auto simp: clean_def list_all_iff)
  have t: "takeWhile (\<lambda>y. \<not> isspace y) (xs @ c # rest) = xs"
    using xs assms(2) by (simp add: takeWhile_append2)
  have d: "dropWhile (\<lambda>y. \<not> isspace y) (xs @ c # rest) = c # rest"
    using xs assms(2) by (simp add: dropWhile_append2)
  show ?thesis using x assms(2) by (simp add: w t d)
qed

lemma split_ws_bilou_line:
  assumes "clean (tok_text token)" "clean tag"
  shows "split_ws (bilou_line token tag @ newline) = [tok_text token, tag, tag, tag]"
proof -
  have "bilou_line token tag @ newline
          = tok_text token @ CHR '' '' # (tag @ CHR '' '' # (tag @ CHR '' '' # (tag @ CHR 0x0A # [])))"
    by (simp add: bilou_line_eq newline_def)
  then show ?thesis
    using assms by (simp only: split_ws_field isspace_space isspace_newline split_ws.simps)
qed

lemma read_conll_lines:
  assumes "length tags = length doc" "list_all (\<lambda>t. clean (tok_text t)) doc" "list_all clean tags"
  shows "read_conll (map (\<lambda>l. l @ newline) (map (\<lambda>(token, tag). bilou_line token tag) (zip doc tags)))
           = Inr (map tok_text doc, tags, tags, tags)"
  using assms
proof (induction tags doc rule: list_induct2)
  case Nil
  then show ?case by simp
next
  case (Cons tag tags token doc)
  then show ?case
    by (simp add: split_ws_bilou_line bind_error_def)
qed

lemma filter_all:
  "list_all (\<lambda>t. \<not> is_space t) doc \<Longrightarrow> length tags = length doc \<Longrightarrow>
     filter (\<lambda>(token, tag). \<not> is_space token) (zip doc tags) = zip doc tags"
  by (induction doc tags rule: list_induct2') auto

lemma clean_span_tag:
  assumes "list_all (\<lambda>c. \<not> isspace c) l"
  shows "clean (span_tag (a, b, l) t)"
  using assms by (auto simp: span_tag_def clean_def isspace_def whitespace_def)

lemma clean_tag_at:
  assumes "list_all (\<lambda>(a, b, l). list_all (\<lambda>c. \<not> isspace c) l) es"
    "list_all (\<lambda>c. \<not> isspace c) entity"
  shows "clean (outside_tag entity (tag_at es t))"
  using assms
proof (induction es)
  case Nil
  then show ?case by (auto simp: clean_def isspace_def whitespace_def)
next
  case (Cons sp es)
  obtain a b l where sp: "sp = (a, b, l)" by (cases sp)
  show ?case
  proof (cases "a \<le> t \<and> t \<le> b")
    case True
    then have "tag_at (sp # es) t = span_tag (a, b, l) t" by (simp add: sp tag_at_Cons)
    moreover have "clean (span_tag (a, b, l) t)" using Cons.prems(1) by (simp add: sp clean_span_tag)
    ultimately show ?thesis using clean_outside_tag[OF _ Cons.prems(2)] by simp
  next
    case False
    then have "tag_at (sp # es) t = tag_at es t" by (auto simp: sp tag_at_Cons)
    then show ?thesis using Cons by simp
  qed
qed


lemma tiled_lines:
  "bilou_lines_for_entity spacy_biluo_tags_from_offsets ai_doc tiled_annotations ''Task''
     = Inr [''AI U-Task U-Task U-Task'', ''is B-Task B-Task B-Task'',
            ''useful I-Task I-Task I-Task'', ''. L-Task L-Task L-Task'']"
  by code_simp

lemma ai_doc_in_order: "doc_in_order ai_doc"
  by code_simp

lemma tiled_annotations_tile: "tiles ai_doc (entities_of tiled_annotations)"
  by code_simp






end
